theory Spec2Isabelle
  imports Main "HOL-Library.Sublist"
begin

section \<open>Values of the program\<close>

text \<open>
  The script \<^verbatim>\<open>hbsknowledgesheet.py\<close> reads decoded JSON and never declares a type for
  it, so a hit, a sheet cell and every nested field is a \<open>json\<close> value. A decoded
  object is the association list of its bindings; \<open>map_of\<close> reads a key. Numbers are
  the integers (a fractional number is outside this model). A \<open>string\<close> is a list of
  characters; Python would iterate code points, which is the same thing on ASCII.
\<close>

datatype json =
    JNull
  | JBool bool
  | JNum int
  | JStr string
  | JList "json list"
  | JObj "(string \<times> json) list"

text \<open>The exceptions the script's own expressions can raise, and a failed sheet call.\<close>

datatype py_error = AttributeError | TypeError | APIError

type_synonym 'a result = "py_error + 'a"

text \<open>Sequencing of two computations that may raise: the first exception wins.\<close>

definition and_then :: "'a result \<Rightarrow> ('a \<Rightarrow> 'b result) \<Rightarrow> 'b result" where
  "and_then r f = (case r of Inl e \<Rightarrow> Inl e | Inr v \<Rightarrow> f v)"

text \<open>Python's truth value: \<^verbatim>\<open>if x\<close>, \<^verbatim>\<open>not x\<close>, \<^verbatim>\<open>x or y\<close>.\<close>

fun truthy :: "json \<Rightarrow> bool" where
  "truthy JNull = False"
| "truthy (JBool b) = b"
| "truthy (JNum n) = (n \<noteq> 0)"
| "truthy (JStr s) = (s \<noteq> [])"
| "truthy (JList xs) = (xs \<noteq> [])"
| "truthy (JObj kvs) = (kvs \<noteq> [])"

text \<open>
  \<^verbatim>\<open>obj.get(key, default)\<close>: only a dict has the method; on anything else the
  attribute lookup raises.
\<close>

fun py_get :: "json \<Rightarrow> string \<Rightarrow> json \<Rightarrow> json result" where
  "py_get (JObj kvs) k d = Inr (case map_of kvs k of None \<Rightarrow> d | Some v \<Rightarrow> v)"
| "py_get _ k d = Inl AttributeError"

text \<open>
  Iteration (\<^verbatim>\<open>for x in v\<close>, a comprehension, the argument of \<^verbatim>\<open>join\<close>): a list
  gives its items, a string its characters, a dict its keys; nothing else iterates.
\<close>

fun py_iter :: "json \<Rightarrow> json list result" where
  "py_iter (JList xs) = Inr xs"
| "py_iter (JStr s) = Inr (map (\<lambda>c. JStr [c]) s)"
| "py_iter (JObj kvs) = Inr (map (\<lambda>kv. JStr (fst kv)) kvs)"
| "py_iter _ = Inl TypeError"

fun str_of :: "json \<Rightarrow> string option" where
  "str_of (JStr s) = Some s"
| "str_of _ = None"

text \<open>\<^verbatim>\<open>sep.join(xs)\<close> on a list of strings.\<close>

fun join :: "string \<Rightarrow> string list \<Rightarrow> string" where
  "join sep [] = []"
| "join sep [s] = s"
| "join sep (s # t # ts) = s @ sep @ join sep (t # ts)"

text \<open>\<^verbatim>\<open>", ".join(v)\<close> on a value: every item must be a string.\<close>

definition py_join :: "json \<Rightarrow> string result" where
  "py_join v =
     and_then (py_iter v) (\<lambda>items.
       if list_all (\<lambda>i. str_of i \<noteq> None) items
       then Inr (join '', '' (List.map_filter str_of items))
       else Inl TypeError)"

text \<open>
  What a set hashes and compares: \<^verbatim>\<open>True == 1\<close> and \<^verbatim>\<open>False == 0\<close> with equal
  hashes, and a list or a dict is unhashable (\<open>None\<close> here, a \<^verbatim>\<open>TypeError\<close> in
  Python).
\<close>

datatype key = KNone | KNum int | KStr string

fun hash_key :: "json \<Rightarrow> key option" where
  "hash_key JNull = Some KNone"
| "hash_key (JBool b) = Some (KNum (if b then 1 else 0))"
| "hash_key (JNum n) = Some (KNum n)"
| "hash_key (JStr s) = Some (KStr s)"
| "hash_key (JList xs) = None"
| "hash_key (JObj kvs) = None"

section \<open>Configuration constants\<close>

definition COLUMNS :: "string list" where
  "COLUMNS = [''Title'', ''Publication Date'', ''Author'', ''faculty'', ''Summary'',
     ''Article URL'', ''ImageFile URL'', ''Category'', ''New Category'',
     ''Object ID'', ''timestamp'']"

definition all_valid_categories :: "string set" where
  "all_valid_categories = {''Accounting'', ''Advertising'', ''AI at Work'',
     ''Artificial Intelligence'', ''Strategy'', ''Leadership'', ''Not Defined''}"

definition page_size :: nat where
  "page_size = 10"

definition max_articles :: nat where
  "max_articles = 50"

section \<open>Category Normalizer\<close>

text \<open>
  \<^verbatim>\<open>normalize_categories(topics)\<close>. The comprehension with \<^verbatim>\<open>isinstance(t, str)\<close>
  keeps the string items, here already as strings.
\<close>

definition normalize_categories :: "json \<Rightarrow> (string list \<times> string list) result" where
  "normalize_categories topics =
     (if \<not> truthy topics then Inr ([''Not Defined''], [])
      else and_then (py_iter topics) (\<lambda>items.
        let cleaned = List.map_filter str_of items;
            allowed = filter (\<lambda>t. t \<in> all_valid_categories) cleaned;
            new = filter (\<lambda>t. t \<notin> all_valid_categories) cleaned
        in Inr (if allowed = [] then [''Not Defined''] else allowed, new)))"

section \<open>The date parser of the standard library\<close>

text \<open>
  \<^verbatim>\<open>datetime.fromisoformat\<close> is not code of the script. It is written out here after
  the grammar its documentation gives,
  \<^verbatim>\<open>YYYY-MM-DD[*HH[:MM[:SS[.fff[fff]]]][+HH:MM[:SS[.ffffff]]]]\<close>
  where \<^verbatim>\<open>*\<close> is any one character, with the range checks of the \<^verbatim>\<open>datetime\<close> and
  \<^verbatim>\<open>timezone\<close> constructors. The result is already the \<^verbatim>\<open>.date()\<close> of the parsed
  value: year, month, day. \<open>None\<close> is the \<^verbatim>\<open>ValueError\<close>.
\<close>

definition digit_val :: "char \<Rightarrow> nat option" where
  "digit_val c =
     (let n = (of_char c :: nat) in if 48 \<le> n \<and> n \<le> 57 then Some (n - 48) else None)"

fun digits_acc :: "nat \<Rightarrow> string \<Rightarrow> nat option" where
  "digits_acc acc [] = Some acc"
| "digits_acc acc (c # cs) =
     (case digit_val c of None \<Rightarrow> None | Some d \<Rightarrow> digits_acc (10 * acc + d) cs)"

definition parse_digits :: "nat \<Rightarrow> string \<Rightarrow> nat option" where
  "parse_digits n s = (if length s = n \<and> 0 < n then digits_acc 0 s else None)"

definition is_leap :: "nat \<Rightarrow> bool" where
  "is_leap y = (y mod 4 = 0 \<and> (y mod 100 \<noteq> 0 \<or> y mod 400 = 0))"

definition days_in_month :: "nat \<Rightarrow> nat \<Rightarrow> nat" where
  "days_in_month y m =
     (if m = 2 then (if is_leap y then 29 else 28)
      else if m = 4 \<or> m = 6 \<or> m = 9 \<or> m = 11 then 30 else 31)"

definition valid_date :: "nat \<Rightarrow> nat \<Rightarrow> nat \<Rightarrow> bool" where
  "valid_date y m d =
     (1 \<le> y \<and> y \<le> 9999 \<and> 1 \<le> m \<and> m \<le> 12 \<and> 1 \<le> d \<and> d \<le> days_in_month y m)"

definition parse_isoformat_date :: "string \<Rightarrow> (nat \<times> nat \<times> nat) option" where
  "parse_isoformat_date s =
     (if length s = 10 \<and> s ! 4 = CHR ''-'' \<and> s ! 7 = CHR ''-'' then
        (case parse_digits 4 (take 4 s) of None \<Rightarrow> None | Some y \<Rightarrow>
         case parse_digits 2 (take 2 (drop 5 s)) of None \<Rightarrow> None | Some m \<Rightarrow>
         case parse_digits 2 (drop 8 s) of None \<Rightarrow> None | Some d \<Rightarrow>
           if valid_date y m d then Some (y, m, d) else None)
      else None)"

text \<open>\<^verbatim>\<open>HH[:MM[:SS[.fff[fff]]]]\<close>: hours, minutes, seconds, microseconds.\<close>

definition parse_hh_mm_ss_ff :: "string \<Rightarrow> (nat \<times> nat \<times> nat \<times> nat) option" where
  "parse_hh_mm_ss_ff s =
     (let n = length s in
      if n \<noteq> 2 \<and> n \<noteq> 5 \<and> n \<noteq> 8 \<and> n \<noteq> 12 \<and> n \<noteq> 15 then None
      else if 5 \<le> n \<and> s ! 2 \<noteq> CHR '':'' then None
      else if 8 \<le> n \<and> s ! 5 \<noteq> CHR '':'' then None
      else if 12 \<le> n \<and> s ! 8 \<noteq> CHR ''.'' then None
      else
        case parse_digits 2 (take 2 s) of None \<Rightarrow> None | Some h \<Rightarrow>
        case (if 5 \<le> n then parse_digits 2 (take 2 (drop 3 s)) else Some 0) of
          None \<Rightarrow> None | Some m \<Rightarrow>
        case (if 8 \<le> n then parse_digits 2 (take 2 (drop 6 s)) else Some 0) of
          None \<Rightarrow> None | Some sec \<Rightarrow>
        case (if n = 12 then map_option (\<lambda>f. f * 1000) (parse_digits 3 (drop 9 s))
              else if n = 15 then parse_digits 6 (drop 9 s) else Some 0) of
          None \<Rightarrow> None | Some us \<Rightarrow> Some (h, m, sec, us))"

definition is_sign :: "char \<Rightarrow> bool" where
  "is_sign c = (c = CHR ''+'' \<or> c = CHR ''-'')"

definition parse_isoformat_time :: "string \<Rightarrow> bool" where
  "parse_isoformat_time tstr =
     (let timestr = takeWhile (\<lambda>c. \<not> is_sign c) tstr;
          rest = dropWhile (\<lambda>c. \<not> is_sign c) tstr
      in case parse_hh_mm_ss_ff timestr of
           None \<Rightarrow> False
         | Some (h, m, sec, us) \<Rightarrow>
             h < 24 \<and> m < 60 \<and> sec < 60 \<and>
             (rest = [] \<or>
              (let tz = tl rest in
               (length tz = 5 \<or> length tz = 8 \<or> length tz = 15) \<and>
               (case parse_hh_mm_ss_ff tz of
                  None \<Rightarrow> False
                | Some (th, tm, ts, tus) \<Rightarrow>
                    (th * 3600 + tm * 60 + ts) * 1000000 + tus < 86400 * 1000000))))"

definition fromisoformat :: "string \<Rightarrow> (nat \<times> nat \<times> nat) option" where
  "fromisoformat s =
     (if length s < 10 then None
      else case parse_isoformat_date (take 10 s) of
             None \<Rightarrow> None
           | Some d \<Rightarrow>
               if length s = 10 then Some d
               else if parse_isoformat_time (drop 11 s) then Some d else None)"

text \<open>\<^verbatim>\<open>date.isoformat()\<close>: \<^verbatim>\<open>%04d-%02d-%02d\<close>, on a year of at most four digits.\<close>

definition digit_char :: "nat \<Rightarrow> char" where
  "digit_char n = ''0123456789'' ! (n mod 10)"

definition isoformat :: "nat \<times> nat \<times> nat \<Rightarrow> string" where
  "isoformat ymd =
     (case ymd of (y, m, d) \<Rightarrow>
        [digit_char (y div 1000), digit_char (y div 100), digit_char (y div 10),
         digit_char y, CHR ''-'', digit_char (m div 10), digit_char m, CHR ''-'',
         digit_char (d div 10), digit_char d])"

section \<open>Record Mapper\<close>

text \<open>\<^verbatim>\<open>date_str.replace("Z", "")\<close> removes every \<^verbatim>\<open>Z\<close> of the string.\<close>

definition replace_Z :: "string \<Rightarrow> string" where
  "replace_Z s = filter (\<lambda>c. c \<noteq> CHR ''Z'') s"

text \<open>
  Line 66 of the script, outside the \<^verbatim>\<open>try\<close>:
  \<^verbatim>\<open>date_str = hit.get("sortDate") or hit.get("display", {}).get("date")\<close>.
\<close>

definition date_str_of :: "json \<Rightarrow> json result" where
  "date_str_of hit =
     and_then (py_get hit ''sortDate'' JNull) (\<lambda>sd.
       if truthy sd then Inr sd
       else and_then (py_get hit ''display'' (JObj [])) (\<lambda>display.
              py_get display ''date'' JNull))"

text \<open>
  Lines 67 to 70, the \<^verbatim>\<open>try\<close>: a truthy value that is not a string has no
  \<^verbatim>\<open>replace\<close>, and that \<^verbatim>\<open>AttributeError\<close> is caught like the parser's
  \<^verbatim>\<open>ValueError\<close>.
\<close>

definition date_iso_of :: "json \<Rightarrow> string" where
  "date_iso_of date_str =
     (if truthy date_str then
        (case date_str of
           JStr s \<Rightarrow> (case fromisoformat (replace_Z s) of
                        Some d \<Rightarrow> isoformat d
                      | None \<Rightarrow> [])
         | _ \<Rightarrow> [])
      else [])"

definition publication_date :: "json \<Rightarrow> string result" where
  "publication_date hit = and_then (date_str_of hit) (\<lambda>d. Inr (date_iso_of d))"

fun labels :: "json list \<Rightarrow> json list result" where
  "labels [] = Inr []"
| "labels (item # items) =
     and_then (py_get item ''label'' (JStr [])) (\<lambda>l.
     and_then (labels items) (\<lambda>ls. Inr (l # ls)))"

definition author_str_of :: "json \<Rightarrow> string result" where
  "author_str_of hit =
     and_then (py_get hit ''author'' JNull) (\<lambda>a.
     and_then
       (if truthy a then Inr a
        else and_then (py_get hit ''display'' (JObj [])) (\<lambda>display.
             and_then (py_get display ''byline'' (JList [])) (\<lambda>byline.
               case byline of
                 JList items \<Rightarrow> and_then (labels items) (\<lambda>ls. Inr (JList ls))
               | _ \<Rightarrow> Inr (JList []))))
       py_join)"

definition faculty_str_of :: "json \<Rightarrow> string result" where
  "faculty_str_of hit =
     and_then (py_get hit ''faculty'' (JList [])) (\<lambda>faculty.
       case faculty of JList items \<Rightarrow> py_join faculty | _ \<Rightarrow> Inr [])"

text \<open>Line 81: the nested thumbnail source.\<close>

definition thumb_of :: "json \<Rightarrow> json result" where
  "thumb_of hit =
     and_then (py_get hit ''display'' (JObj [])) (\<lambda>display.
     and_then (py_get display ''thumbnail'' (JObj [])) (\<lambda>thumbnail.
       py_get thumbnail ''src'' (JStr [])))"

text \<open>Line 82: only a string has \<^verbatim>\<open>startswith\<close>.\<close>

definition image_url_of :: "json \<Rightarrow> string result" where
  "image_url_of hit =
     and_then (thumb_of hit) (\<lambda>thumb.
       case thumb of
         JStr s \<Rightarrow> Inr (if take 2 s = ''//'' then ''https:'' @ s else s)
       | _ \<Rightarrow> Inl AttributeError)"

text \<open>
  \<^verbatim>\<open>build_article_row(hit)\<close>; the first argument is what \<^verbatim>\<open>datetime.now().isoformat()\<close>
  returns at this call.
\<close>

definition build_article_row :: "string \<Rightarrow> json \<Rightarrow> json list result" where
  "build_article_row current_timestamp hit =
     and_then (py_get hit ''id'' JNull) (\<lambda>obj_id.
     and_then (py_get hit ''url'' (JStr [])) (\<lambda>url.
     and_then (publication_date hit) (\<lambda>date_iso.
     and_then (author_str_of hit) (\<lambda>author_str.
     and_then (faculty_str_of hit) (\<lambda>faculty_str.
     and_then (image_url_of hit) (\<lambda>image_url.
     and_then (py_get hit ''topic'' (JList [])) (\<lambda>topic.
     and_then (normalize_categories topic) (\<lambda>cats.
     and_then (py_get hit ''title'' (JStr [])) (\<lambda>title.
     and_then (py_get hit ''description'' (JStr [])) (\<lambda>description.
       Inr [title, JStr date_iso, JStr author_str, JStr faculty_str, description,
            url, JStr image_url, JStr (join '', '' (fst cats)),
            JStr (join '', '' (snd cats)), obj_id, JStr current_timestamp]))))))))))"

section \<open>Existing-Key Index\<close>

text \<open>
  A record of the sheet is the dict \<^verbatim>\<open>get_all_records\<close> returns for one row: header
  name to cell. \<open>row_get\<close> is \<^verbatim>\<open>row.get(k)\<close>, which is also \<^verbatim>\<open>row[k]\<close> wherever the
  script reads it (only after the \<^verbatim>\<open>get\<close> was truthy).
\<close>

type_synonym record_row = "(string \<times> json) list"

definition row_get :: "record_row \<Rightarrow> string \<Rightarrow> json" where
  "row_get row k = (case map_of row k of None \<Rightarrow> JNull | Some v \<Rightarrow> v)"

text \<open>
  \<^verbatim>\<open>{row["Object ID"] for row in records if row.get("Object ID")}\<close>: building the set
  hashes every kept cell.
\<close>

definition get_existing_object_ids :: "record_row list \<Rightarrow> key set result" where
  "get_existing_object_ids records =
     (let ids = filter truthy (map (\<lambda>row. row_get row ''Object ID'') records)
      in if list_all (\<lambda>i. hash_key i \<noteq> None) ids
         then Inr (set (List.map_filter hash_key ids))
         else Inl TypeError)"

section \<open>Pipeline Orchestrator\<close>

text \<open>
  The world a run meets: the credential variable, the JSON decoder and the sheet
  connection of \<^verbatim>\<open>init_sheet\<close>; the records of the sheet and whether reading them
  works; the API, as the answer to the GET at each offset; the clock, as the timestamp
  of the n-th mapped row; and whether the sheet accepts a batch.
\<close>

datatype response = RequestException | Json json

record world =
  SERVICE_ACCOUNT_JSON :: "string option"
  json_loads :: "string \<Rightarrow> json option"
  open_worksheet :: "json \<Rightarrow> bool"
  sheet_records :: "record_row list"
  sheet_readable :: bool
  api :: "nat \<Rightarrow> response"
  now :: "nat \<Rightarrow> string"
  append_rows_ok :: "json list list \<Rightarrow> bool"

datatype init_error = NotSet | InvalidJson | ConnectFailed

text \<open>
  \<^verbatim>\<open>init_sheet()\<close>: the two \<^verbatim>\<open>ValueError\<close>s of the script, and whatever the Google
  client raises.
\<close>

definition init_sheet :: "world \<Rightarrow> init_error + unit" where
  "init_sheet w =
     (case SERVICE_ACCOUNT_JSON w of
        None \<Rightarrow> Inl NotSet
      | Some s \<Rightarrow>
          if s = [] then Inl NotSet
          else case json_loads w s of
                 None \<Rightarrow> Inl InvalidJson
               | Some info \<Rightarrow> if open_worksheet w info then Inr () else Inl ConnectFailed)"

definition get_all_records :: "world \<Rightarrow> record_row list result" where
  "get_all_records w = (if sheet_readable w then Inr (sheet_records w) else Inl APIError)"

text \<open>
  The locals of \<^verbatim>\<open>fetch_and_upload\<close>, and the offsets of the GETs issued so far.
\<close>

record state =
  articles_checked :: nat
  batch_to_append :: "json list list"
  requested :: "nat list"

definition initial :: state where
  "initial = \<lparr>articles_checked = 0, batch_to_append = [], requested = []\<rparr>"

text \<open>The body of \<^verbatim>\<open>for hit in hits\<close> (lines 129 to 131).\<close>

definition process_hit :: "key set \<Rightarrow> (nat \<Rightarrow> string) \<Rightarrow> state \<Rightarrow> json \<Rightarrow> state result" where
  "process_hit existing_ids clock st hit =
     and_then (py_get hit ''id'' JNull) (\<lambda>i.
       case hash_key i of
         None \<Rightarrow> Inl TypeError
       | Some k \<Rightarrow>
           if k \<notin> existing_ids then
             and_then (build_article_row (clock (articles_checked st)) hit) (\<lambda>row.
               Inr (st\<lparr>batch_to_append := batch_to_append st @ [row],
                       articles_checked := articles_checked st + 1\<rparr>))
           else Inr st)"

fun process_hits :: "key set \<Rightarrow> (nat \<Rightarrow> string) \<Rightarrow> state \<Rightarrow> json list \<Rightarrow> state result" where
  "process_hits existing_ids clock st [] = Inr st"
| "process_hits existing_ids clock st (hit # hits) =
     and_then (process_hit existing_ids clock st hit)
       (\<lambda>st'. process_hits existing_ids clock st' hits)"

text \<open>How one turn of the page loop ends: on to the next offset, or \<^verbatim>\<open>break\<close>.\<close>

datatype flow = Next state | Stop state

fun state_of :: "flow \<Rightarrow> state" where
  "state_of (Next st) = st"
| "state_of (Stop st) = st"

text \<open>The body of \<^verbatim>\<open>for offset in range(...)\<close> (lines 117 to 139).\<close>

definition page :: "(nat \<Rightarrow> response) \<Rightarrow> key set \<Rightarrow> (nat \<Rightarrow> string) \<Rightarrow> state \<Rightarrow> nat \<Rightarrow> flow result" where
  "page fetch existing_ids clock st offset =
     (let st1 = st\<lparr>requested := requested st @ [offset]\<rparr> in
      case fetch offset of
        RequestException \<Rightarrow> Inr (Stop st1)
      | Json body \<Rightarrow>
          and_then (py_get body ''hits'' (JList [])) (\<lambda>hits.
            if \<not> truthy hits then Inr (Stop st1)
            else and_then (py_iter hits) (\<lambda>hs.
                 and_then (process_hits existing_ids clock st1 hs) (\<lambda>st2.
                   Inr (if max_articles \<le> articles_checked st2 then Stop st2
                        else Next st2)))))"

fun paging :: "(nat \<Rightarrow> response) \<Rightarrow> key set \<Rightarrow> (nat \<Rightarrow> string) \<Rightarrow> nat list \<Rightarrow> state \<Rightarrow> flow result" where
  "paging fetch existing_ids clock [] st = Inr (Next st)"
| "paging fetch existing_ids clock (offset # offsets) st =
     and_then (page fetch existing_ids clock st offset) (\<lambda>f.
       case f of
         Stop st' \<Rightarrow> Inr (Stop st')
       | Next st' \<Rightarrow> paging fetch existing_ids clock offsets st')"

text \<open>\<^verbatim>\<open>range(0, max_articles, page_size)\<close>.\<close>

definition page_offsets :: "nat list" where
  "page_offsets =
     map (\<lambda>i. i * page_size) [0 ..< (max_articles + page_size - 1) div page_size]"

text \<open>
  Lines 141 to 148: the one \<^verbatim>\<open>append_rows\<close> call, made only for a batch that is not
  empty, and how it went.
\<close>

datatype upload = NoUpload | Uploaded "json list list" | UploadError "json list list"

definition upload_batch :: "world \<Rightarrow> json list list \<Rightarrow> upload" where
  "upload_batch w batch =
     (if batch \<noteq> [] then
        (if append_rows_ok w batch then Uploaded batch else UploadError batch)
      else NoUpload)"

text \<open>
  A run ends in one of three ways: \<^verbatim>\<open>init_sheet\<close> raised and the function returned
  at once; an exception nobody catches left the function; or the last line was reached,
  with the final locals (the count it logs among them) and the upload made.
\<close>

datatype run = Failed init_error | Crashed py_error | Finished state upload

definition fetch_and_upload :: "world \<Rightarrow> run" where
  "fetch_and_upload w =
     (case init_sheet w of
        Inl e \<Rightarrow> Failed e
      | Inr sheet \<Rightarrow>
          (case and_then (get_all_records w) get_existing_object_ids of
             Inl e \<Rightarrow> Crashed e
           | Inr existing_ids \<Rightarrow>
               (case paging (api w) existing_ids (now w) page_offsets initial of
                  Inl e \<Rightarrow> Crashed e
                | Inr f \<Rightarrow>
                    Finished (state_of f)
                      (upload_batch w (batch_to_append (state_of f))))))"

text \<open>
  The sheet after a run. The header of the sheet is \<open>COLUMNS\<close>, and the sheet gives
  back the cells it was given: an appended row reads back as the record pairing each
  column name with its cell.
\<close>

definition sheet_after :: "world \<Rightarrow> run \<Rightarrow> record_row list" where
  "sheet_after w r =
     (case r of
        Finished st (Uploaded batch) \<Rightarrow> sheet_records w @ map (zip COLUMNS) batch
      | _ \<Rightarrow> sheet_records w)"

section \<open>Notions used to state the properties\<close>

text \<open>
  The key under which a set would look up the identifier of a hit
  (\<^verbatim>\<open>hit.get("id")\<close>), and the key of the Object ID cell of a mapped row (the tenth
  cell). \<open>None\<close> stands for a value no set can hold or test.
\<close>

definition hit_key :: "json \<Rightarrow> key option" where
  "hit_key hit = (case py_get hit ''id'' JNull of Inl e \<Rightarrow> None | Inr i \<Rightarrow> hash_key i)"

definition row_key :: "json list \<Rightarrow> key option" where
  "row_key row = hash_key (row ! 9)"

text \<open>\<^verbatim>\<open>hit.get("id") in existing_ids\<close> is true.\<close>

definition id_in_index :: "key set \<Rightarrow> json \<Rightarrow> bool" where
  "id_in_index existing_ids hit =
     (case hit_key hit of None \<Rightarrow> False | Some k \<Rightarrow> k \<in> existing_ids)"

text \<open>A row of eleven cells whose Object ID is not in the index.\<close>

definition fresh_row :: "key set \<Rightarrow> json list \<Rightarrow> bool" where
  "fresh_row ex row =
     (length row = 11 \<and> (case row_key row of None \<Rightarrow> False | Some k \<Rightarrow> k \<notin> ex))"

text \<open>
  From \<open>st\<close> to \<open>st'\<close> the batch grew by \<open>rows\<close>, the counter by their number, and
  every one of them is fresh.
\<close>

definition grown :: "key set \<Rightarrow> state \<Rightarrow> state \<Rightarrow> json list list \<Rightarrow> bool" where
  "grown ex st st' rows =
     (batch_to_append st' = batch_to_append st @ rows \<and>
      articles_checked st' = articles_checked st + length rows \<and>
      list_all (fresh_row ex) rows)"

text \<open>The hits the API serves at an offset, as the page loop iterates them.\<close>

definition page_hits :: "(nat \<Rightarrow> response) \<Rightarrow> nat \<Rightarrow> json list" where
  "page_hits fetch offset =
     (case fetch offset of
        RequestException \<Rightarrow> []
      | Json body \<Rightarrow>
          (case and_then (py_get body ''hits'' (JList [])) py_iter of
             Inl e \<Rightarrow> [] | Inr hs \<Rightarrow> hs))"

definition served_hits :: "(nat \<Rightarrow> response) \<Rightarrow> nat list \<Rightarrow> json list" where
  "served_hits fetch offsets = concat (map (page_hits fetch) offsets)"

text \<open>The truthy Object ID cells of the sheet: the cells the index is built from.\<close>

definition sheet_ids :: "record_row list \<Rightarrow> json list" where
  "sheet_ids records = filter truthy (map (\<lambda>row. row_get row ''Object ID'') records)"

text \<open>
  A sequence of runs on one sheet: each run meets its own API answers, clock and
  upload outcome, and the sheet the run before it left.
\<close>

fun runs :: "record_row list \<Rightarrow> world list \<Rightarrow> record_row list" where
  "runs records [] = records"
| "runs records (w # ws) =
     runs (sheet_after (w\<lparr>sheet_records := records\<rparr>)
             (fetch_and_upload (w\<lparr>sheet_records := records\<rparr>))) ws"

text \<open>
  The reading of the date rule that strips one trailing \<^verbatim>\<open>Z\<close>, to compare with
  \<open>replace_Z\<close>.
\<close>

definition strip_trailing_Z :: "string \<Rightarrow> string" where
  "strip_trailing_Z s = (if s \<noteq> [] \<and> last s = CHR ''Z'' then butlast s else s)"

text \<open>The same way out of the page loop, with other locals.\<close>

fun with_state :: "flow \<Rightarrow> state \<Rightarrow> flow" where
  "with_state (Next st) s = Next s"
| "with_state (Stop st) s = Stop s"

text \<open>
  Small worlds for the examples: a hit that carries an identifier only, the row the
  mapper returns for it at the timestamp \<open>T\<close>, an API that serves given hits at
  offset 0 and no hits after, and a world in which the connection works, the sheet
  holds the given records and accepts every batch.
\<close>

definition hit_of_id :: "string \<Rightarrow> json" where
  "hit_of_id i = JObj [(''id'', JStr i)]"

definition row_of_id :: "string \<Rightarrow> json list" where
  "row_of_id i =
     [JStr [], JStr [], JStr [], JStr [], JStr [], JStr [], JStr [],
      JStr ''Not Defined'', JStr [], JStr i, JStr ''T'']"

definition hits_body :: "json list \<Rightarrow> response" where
  "hits_body hits = Json (JObj [(''hits'', JList hits)])"

definition one_page :: "json list \<Rightarrow> nat \<Rightarrow> response" where
  "one_page hits offset = (if offset = 0 then hits_body hits else hits_body [])"

definition world_of :: "record_row list \<Rightarrow> (nat \<Rightarrow> response) \<Rightarrow> world" where
  "world_of records fetch =
     \<lparr>SERVICE_ACCOUNT_JSON = Some ''{}'', json_loads = (\<lambda>s. Some (JObj [])),
      open_worksheet = (\<lambda>j. True), sheet_records = records, sheet_readable = True,
      api = fetch, now = (\<lambda>n. ''T''), append_rows_ok = (\<lambda>b. True)\<rparr>"

text \<open>
  The identifier of a hit, and the new hits of a run: the hits served on the pages a
  finished run requested whose identifier was not in the index of that run, in the
  order the run met them.
\<close>

definition hit_id :: "json \<Rightarrow> json" where
  "hit_id hit = (case py_get hit ''id'' JNull of Inl e \<Rightarrow> JNull | Inr i \<Rightarrow> i)"

definition new_hits :: "world \<Rightarrow> json list" where
  "new_hits w =
     (case fetch_and_upload w of
        Finished st u \<Rightarrow>
          (case get_existing_object_ids (sheet_records w) of
             Inl e \<Rightarrow> []
           | Inr ex \<Rightarrow>
               filter (\<lambda>h. \<not> id_in_index ex h) (served_hits (api w) (requested st)))
      | _ \<Rightarrow> [])"

text \<open>
  In each run of a sequence, on the sheet the run before it left, no truthy
  identifier is among the new hits twice.
\<close>

fun no_new_id_twice :: "record_row list \<Rightarrow> world list \<Rightarrow> bool" where
  "no_new_id_twice records [] = True"
| "no_new_id_twice records (w # ws) =
     (distinct (map hash_key (filter truthy
        (map hit_id (new_hits (w\<lparr>sheet_records := records\<rparr>))))) \<and>
      no_new_id_twice
        (sheet_after (w\<lparr>sheet_records := records\<rparr>)
           (fetch_and_upload (w\<lparr>sheet_records := records\<rparr>))) ws)"

text \<open>
  An API that serves five full pages of ten hits, fifty identifiers in all: page
  \<open>p\<close> holds the identifiers \<open>p0\<close> to \<open>p9\<close>.
\<close>

definition page_ids :: "char \<Rightarrow> string list" where
  "page_ids p = map (\<lambda>c. [p, c]) ''0123456789''"

definition five_pages :: "nat \<Rightarrow> response" where
  "five_pages offset =
     hits_body (map hit_of_id (page_ids
       (if offset = 0 then CHR ''a'' else if offset = 10 then CHR ''b''
        else if offset = 20 then CHR ''c'' else if offset = 30 then CHR ''d''
        else CHR ''e'')))"

section \<open>Auxiliary facts\<close>

lemma and_then_simps [simp]:
  "and_then (Inl e) f = Inl e" "and_then (Inr v) f = f v"
  by (simp_all add: and_then_def)

lemma and_then_Inr: "and_then r f = Inr y \<longleftrightarrow> (\<exists>v. r = Inr v \<and> f v = Inr y)"
  by (cases r) simp_all

lemma build_article_row_Inr:
  assumes "build_article_row ts hit = Inr row"
  shows "\<exists>title d a f descr url img cats i.
     py_get hit ''id'' JNull = Inr i \<and> publication_date hit = Inr d \<and>
     image_url_of hit = Inr img \<and>
     row = [title, JStr d, JStr a, JStr f, descr, url, JStr img,
            JStr (join '', '' (fst cats)), JStr (join '', '' (snd cats)), i, JStr ts]"
  using assms unfolding build_article_row_def and_then_Inr by blast

lemma build_article_row_key:
  "build_article_row ts hit = Inr row \<Longrightarrow> row_key row = hit_key hit \<and> length row = 11"
  by (auto dest!: build_article_row_Inr simp: row_key_def hit_key_def)

lemma process_hit_in_index:
  "id_in_index ex hit \<Longrightarrow> process_hit ex clk st hit = Inr st"
  by (cases "py_get hit ''id'' JNull")
     (auto simp: id_in_index_def hit_key_def process_hit_def split: option.splits)

lemma process_hit_new:
  assumes "process_hit ex clk st hit = Inr st'" "\<not> id_in_index ex hit"
  shows "\<exists>row k. build_article_row (clk (articles_checked st)) hit = Inr row \<and>
           hit_key hit = Some k \<and> k \<notin> ex \<and>
           st' = st\<lparr>batch_to_append := batch_to_append st @ [row],
                    articles_checked := articles_checked st + 1\<rparr>"
  using assms
  by (cases "py_get hit ''id'' JNull")
     (auto simp: id_in_index_def hit_key_def process_hit_def and_then_Inr
           split: option.splits if_splits)

lemma grown_trans:
  "grown ex st st1 rows1 \<Longrightarrow> grown ex st1 st2 rows2 \<Longrightarrow> grown ex st st2 (rows1 @ rows2)"
  by (simp add: grown_def)

lemma process_hit_grown:
  assumes "process_hit ex clk st hit = Inr st'"
  shows "\<exists>rows. grown ex st st' rows \<and> requested st' = requested st \<and>
           subseq (map row_key rows) [hit_key hit]"
proof (cases "id_in_index ex hit")
  case True
  with assms have "st' = st" by (simp add: process_hit_in_index)
  then have "grown ex st st' [] \<and> requested st' = requested st \<and>
     subseq (map row_key []) [hit_key hit]" by (simp add: grown_def)
  then show ?thesis by blast
next
  case False
  from process_hit_new [OF assms False] obtain row k where
    r: "build_article_row (clk (articles_checked st)) hit = Inr row"
    and k: "hit_key hit = Some k" "k \<notin> ex"
    and s: "st' = st\<lparr>batch_to_append := batch_to_append st @ [row],
                    articles_checked := articles_checked st + 1\<rparr>" by blast
  from build_article_row_key [OF r] k have "fresh_row ex row" "row_key row = hit_key hit"
    by (simp_all add: fresh_row_def)
  with s have "grown ex st st' [row] \<and> requested st' = requested st \<and>
     subseq (map row_key [row]) [hit_key hit]" by (simp add: grown_def)
  then show ?thesis by blast
qed

lemma process_hits_grown:
  "process_hits ex clk st hits = Inr st' \<Longrightarrow>
     \<exists>rows. grown ex st st' rows \<and> requested st' = requested st \<and>
            subseq (map row_key rows) (map hit_key hits)"
proof (induction hits arbitrary: st)
  case Nil
  then have "grown ex st st' [] \<and> requested st' = requested st \<and>
     subseq (map row_key []) (map hit_key [])" by (simp add: grown_def)
  then show ?case by blast
next
  case (Cons hit hits)
  from Cons.prems obtain st1 where
    h: "process_hit ex clk st hit = Inr st1" and t: "process_hits ex clk st1 hits = Inr st'"
    by (auto simp: and_then_Inr)
  from process_hit_grown [OF h] obtain rows1 where
    1: "grown ex st st1 rows1" "requested st1 = requested st"
       "subseq (map row_key rows1) [hit_key hit]" by blast
  from Cons.IH [OF t] obtain rows2 where
    2: "grown ex st1 st' rows2" "requested st' = requested st1"
       "subseq (map row_key rows2) (map hit_key hits)" by blast
  have "subseq (map row_key rows1 @ map row_key rows2) ([hit_key hit] @ map hit_key hits)"
    using 1(3) 2(3) by (rule list_emb_append_mono)
  with 1 2 have "grown ex st st' (rows1 @ rows2) \<and> requested st' = requested st \<and>
     subseq (map row_key (rows1 @ rows2)) (map hit_key (hit # hits))"
    by (simp add: grown_trans)
  then show ?case by blast
qed

lemma page_grown:
  assumes "page fetch ex clk st offset = Inr f"
  shows "\<exists>rows. grown ex st (state_of f) rows \<and>
           requested (state_of f) = requested st @ [offset] \<and>
           subseq (map row_key rows) (map hit_key (page_hits fetch offset))"
proof (cases "fetch offset")
  case RequestException
  with assms have "f = Stop (st\<lparr>requested := requested st @ [offset]\<rparr>)"
    by (simp add: page_def)
  then have "grown ex st (state_of f) [] \<and>
           requested (state_of f) = requested st @ [offset] \<and>
           subseq (map row_key []) (map hit_key (page_hits fetch offset))"
    by (simp add: grown_def)
  then show ?thesis by blast
next
  case (Json body)
  let ?st1 = "st\<lparr>requested := requested st @ [offset]\<rparr>"
  from assms Json obtain hits where
    hits: "py_get body ''hits'' (JList []) = Inr hits"
    and rest: "(if \<not> truthy hits then Inr (Stop ?st1)
            else and_then (py_iter hits) (\<lambda>hs.
                 and_then (process_hits ex clk ?st1 hs) (\<lambda>st2.
                   Inr (if max_articles \<le> articles_checked st2 then Stop st2
                        else Next st2)))) = Inr f"
    by (auto simp: page_def Let_def and_then_Inr)
  show ?thesis
  proof (cases "truthy hits")
    case False
    with rest have "f = Stop ?st1" by simp
    then have "grown ex st (state_of f) [] \<and>
           requested (state_of f) = requested st @ [offset] \<and>
           subseq (map row_key []) (map hit_key (page_hits fetch offset))"
      by (simp add: grown_def)
    then show ?thesis by blast
  next
    case True
    with rest obtain hs st2 where
      hs: "py_iter hits = Inr hs" and p: "process_hits ex clk ?st1 hs = Inr st2"
      and f: "state_of f = st2"
      by (auto simp: and_then_Inr split: if_splits)
    from process_hits_grown [OF p] obtain rows where
      g: "grown ex ?st1 st2 rows" "requested st2 = requested ?st1"
        "subseq (map row_key rows) (map hit_key hs)" by blast
    have ph: "page_hits fetch offset = hs"
      using Json hits hs by (simp add: page_hits_def)
    from g f ph have "grown ex st (state_of f) rows \<and>
           requested (state_of f) = requested st @ [offset] \<and>
           subseq (map row_key rows) (map hit_key (page_hits fetch offset))"
      by (simp add: grown_def)
    then show ?thesis by blast
  qed
qed

lemma paging_grown:
  "paging fetch ex clk offsets st = Inr f \<Longrightarrow>
     \<exists>rows vis. grown ex st (state_of f) rows \<and>
        requested (state_of f) = requested st @ vis \<and> prefix vis offsets \<and>
        subseq (map row_key rows) (map hit_key (served_hits fetch offsets))"
proof (induction offsets arbitrary: st)
  case Nil
  then have "grown ex st (state_of f) [] \<and>
        requested (state_of f) = requested st @ [] \<and> prefix [] [] \<and>
        subseq (map row_key []) (map hit_key (served_hits fetch []))"
    by (auto simp: grown_def)
  then show ?case by blast
next
  case (Cons offset offsets)
  from Cons.prems obtain f1 where
    p: "page fetch ex clk st offset = Inr f1"
    and r: "(case f1 of Stop st' \<Rightarrow> Inr (Stop st')
             | Next st' \<Rightarrow> paging fetch ex clk offsets st') = Inr f"
    by (auto simp: and_then_Inr)
  from page_grown [OF p] obtain rows1 where
    1: "grown ex st (state_of f1) rows1"
       "requested (state_of f1) = requested st @ [offset]"
       "subseq (map row_key rows1) (map hit_key (page_hits fetch offset))" by blast
  show ?case
  proof (cases f1)
    case (Stop st1)
    with r have "f = Stop st1" by simp
    with 1 Stop have "grown ex st (state_of f) rows1 \<and>
        requested (state_of f) = requested st @ [offset] \<and> prefix [offset] (offset # offsets) \<and>
        subseq (map row_key rows1) (map hit_key (served_hits fetch (offset # offsets)))"
      by (simp add: served_hits_def subseq_rev_drop_many)
    then show ?thesis by blast
  next
    case (Next st1)
    with r have "paging fetch ex clk offsets st1 = Inr f" by simp
    from Cons.IH [OF this] obtain rows2 vis where
      2: "grown ex st1 (state_of f) rows2" "requested (state_of f) = requested st1 @ vis"
        "prefix vis offsets"
        "subseq (map row_key rows2) (map hit_key (served_hits fetch offsets))" by blast
    have "subseq (map row_key rows1 @ map row_key rows2)
            (map hit_key (page_hits fetch offset) @ map hit_key (served_hits fetch offsets))"
      using 1(3) 2(4) by (rule list_emb_append_mono)
    with 1 2 Next have "grown ex st (state_of f) (rows1 @ rows2) \<and>
        requested (state_of f) = requested st @ (offset # vis) \<and>
        prefix (offset # vis) (offset # offsets) \<and>
        subseq (map row_key (rows1 @ rows2)) (map hit_key (served_hits fetch (offset # offsets)))"
      by (simp add: served_hits_def grown_trans)
    then show ?thesis by blast
  qed
qed

lemma take2_prefix: "take 2 s = ''//'' \<longleftrightarrow> prefix ''//'' s"
proof
  assume "take 2 s = ''//''"
  then have "s = ''//'' @ drop 2 s" by (metis append_take_drop_id)
  then show "prefix ''//'' s" by (metis prefixI)
next
  assume "prefix ''//'' s"
  then obtain t where "s = ''//'' @ t" by (auto simp: prefix_def)
  then show "take 2 s = ''//''" by simp
qed

lemma replace_Z_strip:
  "CHR ''Z'' \<notin> set (butlast s) \<Longrightarrow> replace_Z s = strip_trailing_Z s"
proof (cases "s = []")
  case True
  then show ?thesis by (simp add: replace_Z_def strip_trailing_Z_def)
next
  case False
  assume z: "CHR ''Z'' \<notin> set (butlast s)"
  from False have s: "s = butlast s @ [last s]" by simp
  have b: "filter (\<lambda>c. c \<noteq> CHR ''Z'') (butlast s) = butlast s"
    using z by (simp add: filter_id_conv) blast
  have "replace_Z s = filter (\<lambda>c. c \<noteq> CHR ''Z'') (butlast s) @ filter (\<lambda>c. c \<noteq> CHR ''Z'') [last s]"
    unfolding replace_Z_def by (subst s) (simp only: filter_append)
  with b False s show ?thesis
    by (auto simp: strip_trailing_Z_def)
qed

lemma date_str_of_total:
  assumes "py_get (JObj kvs) ''sortDate'' JNull = Inr sd"
    "truthy sd \<or> map_of kvs ''display'' = None \<or> (\<exists>d. map_of kvs ''display'' = Some (JObj d))"
  shows "\<exists>v. date_str_of (JObj kvs) = Inr v"
  using assms by (auto simp: date_str_of_def)

lemma process_hits_filter:
  "process_hits ex clk st hits =
     process_hits ex clk st (filter (\<lambda>h. \<not> id_in_index ex h) hits)"
  by (induction hits arbitrary: st) (simp_all add: process_hit_in_index)

lemma grown_count:
  "grown ex st st' rows \<Longrightarrow> articles_checked st = length (batch_to_append st) \<Longrightarrow>
     articles_checked st' = length (batch_to_append st')"
  by (simp add: grown_def)

lemma grown_initial:
  "grown ex initial st rows \<Longrightarrow>
     batch_to_append st = rows \<and> articles_checked st = length rows"
  by (simp add: grown_def initial_def)

lemma fetch_and_upload_Finished:
  assumes "fetch_and_upload w = Finished fin u"
  shows "\<exists>ex f. init_sheet w = Inr () \<and> sheet_readable w \<and>
            get_existing_object_ids (sheet_records w) = Inr ex \<and>
            paging (api w) ex (now w) page_offsets initial = Inr f \<and>
            fin = state_of f \<and> u = upload_batch w (batch_to_append fin)"
  using assms
  by (auto simp: fetch_and_upload_def get_all_records_def
           split: sum.splits if_splits)

lemma paging_append:
  "paging fetch ex clk (xs @ ys) st =
     and_then (paging fetch ex clk xs st) (\<lambda>f.
       case f of Stop st' \<Rightarrow> Inr (Stop st') | Next st' \<Rightarrow> paging fetch ex clk ys st')"
proof (induction xs arbitrary: st)
  case Nil
  then show ?case by simp
next
  case (Cons x xs)
  show ?case
  proof (cases "page fetch ex clk st x")
    case (Inl e)
    then show ?thesis by simp
  next
    case (Inr f)
    then show ?thesis using Cons.IH by (cases f) simp_all
  qed
qed

lemma page_requested:
  "page fetch ex clk st offset = Inr f \<Longrightarrow> requested (state_of f) = requested st @ [offset]"
  using page_grown by blast

lemma paging_Next_requested:
  "paging fetch ex clk offsets st = Inr (Next st') \<Longrightarrow>
     requested st' = requested st @ offsets"
proof (induction offsets arbitrary: st)
  case Nil
  then show ?case by simp
next
  case (Cons x xs)
  from Cons.prems obtain f where p: "page fetch ex clk st x = Inr f"
    and r: "(case f of Stop s \<Rightarrow> Inr (Stop s) | Next s \<Rightarrow> paging fetch ex clk xs s)
             = Inr (Next st')"
    by (auto simp: and_then_Inr)
  from r obtain s where f: "f = Next s" and t: "paging fetch ex clk xs s = Inr (Next st')"
    by (cases f) auto
  from page_requested [OF p] f have "requested s = requested st @ [x]" by simp
  with Cons.IH [OF t] show ?case by simp
qed

lemma page_RequestException:
  "fetch offset = RequestException \<Longrightarrow>
     page fetch ex clk st offset = Inr (Stop (st\<lparr>requested := requested st @ [offset]\<rparr>))"
  by (simp add: page_def)

lemma truthy_key:
  "hash_key v = Some k \<Longrightarrow> hash_key i = Some k \<Longrightarrow> truthy v = truthy i"
  by (cases v; cases i) (auto split: if_splits)

lemma existing_ids_truthy:
  assumes "get_existing_object_ids records = Inr ex" "k \<in> ex"
  shows "\<exists>v \<in> set (sheet_ids records). hash_key v = Some k"
proof -
  from assms have "k \<in> set (List.map_filter hash_key (sheet_ids records))"
    by (auto simp: get_existing_object_ids_def sheet_ids_def Let_def split: if_splits)
  then show ?thesis by (auto simp: map_filter_def)
qed

lemma sheet_ids_truthy: "v \<in> set (sheet_ids records) \<Longrightarrow> truthy v"
  by (simp add: sheet_ids_def)

lemma falsy_not_indexed:
  assumes "get_existing_object_ids records = Inr ex" "\<not> truthy i" "hash_key i = Some k"
  shows "k \<notin> ex"
proof
  assume "k \<in> ex"
  from existing_ids_truthy [OF assms(1) this] obtain v where
    "v \<in> set (sheet_ids records)" "hash_key v = Some k" by blast
  with truthy_key [OF this(2) assms(3)] sheet_ids_truthy assms(2) show False by blast
qed

lemma get_existing_object_ids_alt:
  "get_existing_object_ids records =
     (if list_all (\<lambda>i. hash_key i \<noteq> None) (sheet_ids records)
      then Inr (set (List.map_filter hash_key (sheet_ids records)))
      else Inl TypeError)"
  by (simp add: get_existing_object_ids_def sheet_ids_def Let_def)

lemma index_member:
  assumes "get_existing_object_ids records = Inr ex" "v \<in> set (sheet_ids records)"
  shows "\<exists>k. hash_key v = Some k \<and> k \<in> ex"
proof -
  from assms(1) have h: "list_all (\<lambda>i. hash_key i \<noteq> None) (sheet_ids records)"
    and e: "ex = set (List.map_filter hash_key (sheet_ids records))"
    by (auto simp: get_existing_object_ids_alt split: if_splits)
  from h assms(2) obtain k where k: "hash_key v = Some k" by (auto simp: list_all_iff)
  with assms(2) e have "k \<in> ex" by (force simp: map_filter_def)
  with k show ?thesis by blast
qed

lemma sheet_ids_append: "sheet_ids (xs @ ys) = sheet_ids xs @ sheet_ids ys"
  by (simp add: sheet_ids_def)

lemma row_get_zip:
  assumes "length r = 11"
  shows "row_get (zip COLUMNS r) ''Object ID'' = r ! 9"
proof -
  from assms obtain a0 a1 a2 a3 a4 a5 a6 a7 a8 a9 a10 where
    "r = [a0, a1, a2, a3, a4, a5, a6, a7, a8, a9, a10]"
    by (auto simp: numeral_eq_Suc length_Suc_conv)
  then show ?thesis by (simp add: COLUMNS_def row_get_def)
qed

lemma sheet_ids_rows:
  "list_all (\<lambda>r. length r = 11) rows \<Longrightarrow>
     sheet_ids (map (zip COLUMNS) rows) = filter truthy (map (\<lambda>r. r ! 9) rows)"
  by (induction rows) (simp_all add: sheet_ids_def row_get_zip)

lemma grown_fresh:
  "grown ex st st' rows \<Longrightarrow> r \<in> set rows \<Longrightarrow>
     length r = 11 \<and> (\<exists>k. row_key r = Some k \<and> k \<notin> ex)"
  by (auto simp: grown_def fresh_row_def list_all_iff split: option.splits)

lemma finished_batch:
  assumes "fetch_and_upload w = Finished st u"
  shows "\<exists>ex. get_existing_object_ids (sheet_records w) = Inr ex \<and>
           grown ex initial st (batch_to_append st) \<and>
           subseq (map row_key (batch_to_append st))
             (map hit_key (served_hits (api w) page_offsets)) \<and>
           u = upload_batch w (batch_to_append st)"
proof -
  from fetch_and_upload_Finished [OF assms] obtain ex f where
    e: "get_existing_object_ids (sheet_records w) = Inr ex"
    and p: "paging (api w) ex (now w) page_offsets initial = Inr f"
    and s: "st = state_of f" and u: "u = upload_batch w (batch_to_append st)" by blast
  from paging_grown [OF p] s obtain rows where
    g: "grown ex initial st rows"
    and q: "subseq (map row_key rows) (map hit_key (served_hits (api w) page_offsets))"
    by blast
  from grown_initial [OF g] have "batch_to_append st = rows" by simp
  with e g q u show ?thesis by blast
qed

lemma batch_not_in_sheet:
  assumes "fetch_and_upload w = Finished st u"
    "r \<in> set (batch_to_append st)" "v \<in> set (sheet_ids (sheet_records w))"
  shows "row_key r \<noteq> None \<and> row_key r \<noteq> hash_key v"
proof -
  from finished_batch [OF assms(1)] obtain ex where
    e: "get_existing_object_ids (sheet_records w) = Inr ex"
    and g: "grown ex initial st (batch_to_append st)" by blast
  from grown_fresh [OF g assms(2)] obtain k where k: "row_key r = Some k" "k \<notin> ex" by blast
  from index_member [OF e assms(3)] obtain k' where "hash_key v = Some k'" "k' \<in> ex" by blast
  with k show ?thesis by auto
qed

lemma state_of_with_state [simp]: "state_of (with_state f s) = s"
  by (cases f) simp_all

lemma grown_batch_subset:
  "grown ex st st' rows \<Longrightarrow> set (batch_to_append st) \<subseteq> set (batch_to_append st')"
  by (auto simp: grown_def)

lemma process_hits_all_indexed:
  assumes "process_hits ex clk st hits = Inr st'" "ex \<subseteq> ex2"
    "\<forall>r \<in> set (batch_to_append st'). \<exists>k. row_key r = Some k \<and> k \<in> ex2"
  shows "list_all (id_in_index ex2) hits"
  using assms
proof (induction hits arbitrary: st)
  case Nil
  then show ?case by simp
next
  case (Cons hit hits)
  from Cons.prems(1) obtain s1 where
    h: "process_hit ex clk st hit = Inr s1" and t: "process_hits ex clk s1 hits = Inr st'"
    by (auto simp: and_then_Inr)
  have tl: "list_all (id_in_index ex2) hits"
    using Cons.IH [OF t Cons.prems(2,3)] .
  have hd: "id_in_index ex2 hit"
  proof (cases "id_in_index ex hit")
    case True
    with Cons.prems(2) show ?thesis
      by (auto simp: id_in_index_def split: option.splits)
  next
    case False
    from process_hit_new [OF h False] obtain row k where
      r: "build_article_row (clk (articles_checked st)) hit = Inr row"
      and k: "hit_key hit = Some k"
      and s: "s1 = st\<lparr>batch_to_append := batch_to_append st @ [row],
                        articles_checked := articles_checked st + 1\<rparr>" by blast
    from s have "row \<in> set (batch_to_append s1)" by simp
    moreover from process_hits_grown [OF t] obtain rows where "grown ex s1 st' rows" by blast
    ultimately have "row \<in> set (batch_to_append st')"
      using grown_batch_subset by blast
    with Cons.prems(3) obtain k' where "row_key row = Some k'" "k' \<in> ex2" by blast
    with build_article_row_key [OF r] k show ?thesis by (simp add: id_in_index_def)
  qed
  from hd tl show ?case by simp
qed

lemma process_hits_second:
  assumes "process_hits ex clk st hits = Inr st'" "ex \<subseteq> ex2"
    "\<forall>r \<in> set (batch_to_append st'). \<exists>k. row_key r = Some k \<and> k \<in> ex2"
  shows "process_hits ex2 clk2 st2 hits = Inr st2"
proof -
  from process_hits_all_indexed [OF assms] have "list_all (id_in_index ex2) hits" .
  then have "filter (\<lambda>h. \<not> id_in_index ex2 h) hits = []" by (simp add: list_all_iff)
  with process_hits_filter [of ex2 clk2 st2 hits] show ?thesis by simp
qed

lemma page_second:
  assumes p: "page fetch ex clk st offset = Inr f"
    and lim: "articles_checked (state_of f) < max_articles"
    and sub: "ex \<subseteq> ex2"
    and keys: "\<forall>r \<in> set (batch_to_append (state_of f)). \<exists>k. row_key r = Some k \<and> k \<in> ex2"
    and lim2: "articles_checked st2 < max_articles"
  shows "page fetch ex2 clk2 st2 offset =
           Inr (with_state f (st2\<lparr>requested := requested st2 @ [offset]\<rparr>))"
proof (cases "fetch offset")
  case RequestException
  with p show ?thesis by (auto simp: page_def)
next
  case (Json body)
  let ?st1 = "st\<lparr>requested := requested st @ [offset]\<rparr>"
  let ?s2 = "st2\<lparr>requested := requested st2 @ [offset]\<rparr>"
  from p Json obtain hits where
    hits: "py_get body ''hits'' (JList []) = Inr hits"
    and rest: "(if \<not> truthy hits then Inr (Stop ?st1)
            else and_then (py_iter hits) (\<lambda>hs.
                 and_then (process_hits ex clk ?st1 hs) (\<lambda>st3.
                   Inr (if max_articles \<le> articles_checked st3 then Stop st3
                        else Next st3)))) = Inr f"
    by (auto simp: page_def Let_def and_then_Inr)
  show ?thesis
  proof (cases "truthy hits")
    case False
    with rest have "f = Stop ?st1" by simp
    with Json hits False show ?thesis by (simp add: page_def)
  next
    case True
    with rest obtain hs st3 where
      hs: "py_iter hits = Inr hs" and ph: "process_hits ex clk ?st1 hs = Inr st3"
      and f: "f = (if max_articles \<le> articles_checked st3 then Stop st3 else Next st3)"
      by (auto simp: and_then_Inr)
    from f lim have fn: "f = Next st3" by (auto split: if_splits)
    with keys have "\<forall>r \<in> set (batch_to_append st3). \<exists>k. row_key r = Some k \<and> k \<in> ex2"
      by simp
    from process_hits_second [OF ph sub this]
    have "process_hits ex2 clk2 ?s2 hs = Inr ?s2" .
    with Json hits True hs lim2 fn show ?thesis by (simp add: page_def)
  qed
qed

lemma index_after_append:
  assumes "get_existing_object_ids records = Inr ex"
    and "list_all (fresh_row ex) rows"
    and "list_all (\<lambda>r. truthy (r ! 9)) rows"
  shows "\<exists>ex2. get_existing_object_ids (records @ map (zip COLUMNS) rows) = Inr ex2 \<and>
           ex \<subseteq> ex2 \<and> (\<forall>r \<in> set rows. \<exists>k. row_key r = Some k \<and> k \<in> ex2)"
proof -
  from assms(2) have len: "list_all (\<lambda>r. length r = 11) rows"
    and hk: "\<forall>r \<in> set rows. \<exists>k. row_key r = Some k"
    by (auto simp: fresh_row_def list_all_iff split: option.splits)
  from assms(3) have ft: "filter truthy (map (\<lambda>r. r ! 9) rows) = map (\<lambda>r. r ! 9) rows"
    by (simp add: list_all_iff filter_id_conv)
  have ids: "sheet_ids (records @ map (zip COLUMNS) rows) =
               sheet_ids records @ map (\<lambda>r. r ! 9) rows"
    by (simp add: sheet_ids_append sheet_ids_rows [OF len] ft)
  from assms(1) have h1: "list_all (\<lambda>i. hash_key i \<noteq> None) (sheet_ids records)"
    and e: "ex = set (List.map_filter hash_key (sheet_ids records))"
    by (auto simp: get_existing_object_ids_alt split: if_splits)
  from hk have h2: "list_all (\<lambda>i. hash_key i \<noteq> None) (map (\<lambda>r. r ! 9) rows)"
    by (auto simp: list_all_iff row_key_def)
  let ?ex2 = "set (List.map_filter hash_key (sheet_ids records @ map (\<lambda>r. r ! 9) rows))"
  from h1 h2 ids have g: "get_existing_object_ids (records @ map (zip COLUMNS) rows) = Inr ?ex2"
    by (simp add: get_existing_object_ids_alt)
  have s: "ex \<subseteq> ?ex2" using e by (auto simp: map_filter_def)
  have m: "\<exists>k. row_key r = Some k \<and> k \<in> ?ex2" if "r \<in> set rows" for r
  proof -
    from hk that obtain k where k: "row_key r = Some k" by blast
    with that have "k \<in> ?ex2" by (force simp: map_filter_def row_key_def)
    with k show ?thesis by blast
  qed
  from g s m show ?thesis by blast
qed

text \<open>The example worlds, evaluated.\<close>

lemma process_hits_replicate:
  assumes "hit_key h = Some k" "k \<notin> ex" "\<And>m. build_article_row (clk m) h = Inr row"
  shows "process_hits ex clk st (replicate n h) =
           Inr (st\<lparr>batch_to_append := batch_to_append st @ replicate n row,
                   articles_checked := articles_checked st + n\<rparr>)"
proof (induction n arbitrary: st)
  case 0
  then show ?case by simp
next
  case (Suc n)
  from assms(1) obtain i where i: "py_get h ''id'' JNull = Inr i" "hash_key i = Some k"
    by (auto simp: hit_key_def split: sum.splits)
  have "process_hit ex clk st h =
          Inr (st\<lparr>batch_to_append := batch_to_append st @ [row],
                  articles_checked := articles_checked st + 1\<rparr>)"
    using i assms(2,3) by (simp add: process_hit_def)
  then show ?case by (simp add: Suc.IH replicate_app_Cons_same)
qed

lemma page_offsets_eval: "page_offsets = [0, 10, 20, 30, 40]"
  by code_simp

lemma build_hit_of_id: "build_article_row ''T'' (hit_of_id i) = Inr (row_of_id i)"
  by (simp add: build_article_row_def hit_of_id_def row_of_id_def publication_date_def
        date_str_of_def date_iso_of_def author_str_of_def py_join_def map_filter_simps
        faculty_str_of_def image_url_of_def thumb_of_def normalize_categories_def)

lemma hit_key_hit_of_id: "hit_key (hit_of_id i) = Some (KStr i)"
  by (simp add: hit_key_def hit_of_id_def)

lemma init_world_of: "init_sheet (world_of records fetch) = Inr ()"
  by (simp add: init_sheet_def world_of_def)

lemma index_replicate_rows:
  "get_existing_object_ids (map (zip COLUMNS) (replicate 50 (row_of_id ''a'')))
     = Inr {KStr ''a''}"
proof -
  have r: "row_get (zip COLUMNS (row_of_id ''a'')) ''Object ID'' = JStr ''a''"
    by (simp add: row_get_def COLUMNS_def row_of_id_def)
  show ?thesis
    by (simp add: get_existing_object_ids_def r Let_def list_all_iff map_filter_def comp_def)
qed

text \<open>
  An API that serves more hits than the \<^verbatim>\<open>size\<close> it is asked for: with fifty hits at
  offset 0 the first run stops on its count after the first page, and the second run,
  which counts none of them, goes on to the next page. This is why the second-run
  property below asks that the first run did not stop on its count before the last
  page.
\<close>

lemma overflow_first_run:
  "fetch_and_upload
     (world_of []
        (\<lambda>offset. if offset = 0 then hits_body (replicate 50 (hit_of_id ''a''))
                  else if offset = 10 then hits_body [hit_of_id ''b'']
                  else hits_body []))
   = Finished
       \<lparr>articles_checked = 50, batch_to_append = replicate 50 (row_of_id ''a''),
        requested = [0]\<rparr>
       (Uploaded (replicate 50 (row_of_id ''a'')))"
proof -
  let ?fetch = "\<lambda>offset::nat. if offset = 0 then hits_body (replicate 50 (hit_of_id ''a''))
                  else if offset = 10 then hits_body [hit_of_id ''b'']
                  else hits_body []"
  have ph: "process_hits {} (\<lambda>n. ''T'') st (replicate 50 (hit_of_id ''a'')) =
           Inr (st\<lparr>batch_to_append := batch_to_append st @ replicate 50 (row_of_id ''a''),
                   articles_checked := articles_checked st + 50\<rparr>)" for st
    by (rule process_hits_replicate [OF hit_key_hit_of_id]) (simp_all add: build_hit_of_id)
  have pg: "page ?fetch {} (\<lambda>n. ''T'') initial 0 =
      Inr (Stop \<lparr>articles_checked = 50, batch_to_append = replicate 50 (row_of_id ''a''),
        requested = [0]\<rparr>)"
    by (simp add: page_def hits_body_def ph initial_def max_articles_def)
  have pa: "paging ?fetch {} (\<lambda>n. ''T'') page_offsets initial =
      Inr (Stop \<lparr>articles_checked = 50, batch_to_append = replicate 50 (row_of_id ''a''),
        requested = [0]\<rparr>)"
    by (simp add: page_offsets_eval pg)
  have ix: "get_existing_object_ids [] = Inr {}"
    by (simp add: get_existing_object_ids_def)
  show ?thesis
    using pa ix init_world_of [of "[]" ?fetch]
    by (simp add: fetch_and_upload_def get_all_records_def upload_batch_def world_of_def)
qed

lemma overflow_second_run:
  "fetch_and_upload
     (world_of (map (zip COLUMNS) (replicate 50 (row_of_id ''a'')))
        (\<lambda>offset. if offset = 0 then hits_body (replicate 50 (hit_of_id ''a''))
                  else if offset = 10 then hits_body [hit_of_id ''b'']
                  else hits_body []))
   = Finished
       \<lparr>articles_checked = 1, batch_to_append = [row_of_id ''b''],
        requested = [0, 10, 20]\<rparr>
       (Uploaded [row_of_id ''b''])"
proof -
  let ?fetch = "\<lambda>offset::nat. if offset = 0 then hits_body (replicate 50 (hit_of_id ''a''))
                  else if offset = 10 then hits_body [hit_of_id ''b'']
                  else hits_body []"
  let ?ex = "{KStr ''a''}"
  have ia: "id_in_index ?ex (hit_of_id ''a'')"
    by (simp add: id_in_index_def hit_key_hit_of_id)
  have ph: "process_hits ?ex (\<lambda>n. ''T'') st (replicate 50 (hit_of_id ''a'')) = Inr st" for st
    using process_hits_filter [of ?ex "\<lambda>n. ''T''" st "replicate 50 (hit_of_id ''a'')"] ia
    by simp
  have p0: "page ?fetch ?ex (\<lambda>n. ''T'') initial 0 =
      Inr (Next \<lparr>articles_checked = 0, batch_to_append = [], requested = [0]\<rparr>)"
    by (simp add: page_def hits_body_def ph initial_def max_articles_def)
  have hb: "process_hit ?ex (\<lambda>n. ''T'') st (hit_of_id ''b'') =
      Inr (st\<lparr>batch_to_append := batch_to_append st @ [row_of_id ''b''],
              articles_checked := articles_checked st + 1\<rparr>)" for st
    by (simp add: process_hit_def hit_of_id_def build_hit_of_id [unfolded hit_of_id_def])
  have p1: "page ?fetch ?ex (\<lambda>n. ''T'')
        \<lparr>articles_checked = 0, batch_to_append = [], requested = [0]\<rparr> 10 =
      Inr (Next \<lparr>articles_checked = 1, batch_to_append = [row_of_id ''b''],
                 requested = [0, 10]\<rparr>)"
    by (simp add: page_def hits_body_def hb max_articles_def)
  have p2: "page ?fetch ?ex (\<lambda>n. ''T'') st 20 =
      Inr (Stop (st\<lparr>requested := requested st @ [20]\<rparr>))" for st
    by (simp add: page_def hits_body_def)
  have pa: "paging ?fetch ?ex (\<lambda>n. ''T'') page_offsets initial =
      Inr (Stop \<lparr>articles_checked = 1, batch_to_append = [row_of_id ''b''],
                 requested = [0, 10, 20]\<rparr>)"
    by (simp add: page_offsets_eval p0 p1 p2)
  show ?thesis
    using pa index_replicate_rows
      init_world_of [of "map (zip COLUMNS) (replicate 50 (row_of_id ''a''))" ?fetch]
    by (simp add: fetch_and_upload_def get_all_records_def upload_batch_def world_of_def)
qed

lemma example_first_run:
  "fetch_and_upload
     (world_of [zip COLUMNS (row_of_id ''b'')]
        (one_page [hit_of_id ''a'', hit_of_id ''b'', hit_of_id ''c'']))
   = Finished
       \<lparr>articles_checked = 2, batch_to_append = [row_of_id ''a'', row_of_id ''c''],
        requested = [0, 10]\<rparr>
       (Uploaded [row_of_id ''a'', row_of_id ''c''])"
  by code_simp

text \<open>The batch of a run, hit by hit.\<close>

lemma build_article_row_id:
  "build_article_row ts hit = Inr row \<Longrightarrow> hit_id hit = row ! 9 \<and> length row = 11"
  by (auto dest!: build_article_row_Inr simp: hit_id_def)

lemma built_ids:
  "list_all2 (\<lambda>r h. \<exists>ts. build_article_row ts h = Inr r) rows hs \<Longrightarrow>
     map (\<lambda>r. r ! 9) rows = map hit_id hs"
  by (induction rule: list_all2_induct) (auto dest: build_article_row_id)

lemma built_member:
  "list_all2 (\<lambda>r h. \<exists>ts. build_article_row ts h = Inr r) rows hs \<Longrightarrow> h \<in> set hs \<Longrightarrow>
     \<exists>r \<in> set rows. \<exists>ts. build_article_row ts h = Inr r"
  by (induction rule: list_all2_induct) auto

lemma process_hits_built:
  "process_hits ex clk st hits = Inr st' \<Longrightarrow>
     \<exists>rows. grown ex st st' rows \<and>
        list_all2 (\<lambda>r h. \<exists>ts. build_article_row ts h = Inr r) rows
          (filter (\<lambda>h. \<not> id_in_index ex h) hits)"
proof (induction hits arbitrary: st)
  case Nil
  then have "grown ex st st' [] \<and>
        list_all2 (\<lambda>r h. \<exists>ts. build_article_row ts h = Inr r) []
          (filter (\<lambda>h. \<not> id_in_index ex h) [])" by (simp add: grown_def)
  then show ?case by blast
next
  case (Cons hit hits)
  from Cons.prems obtain st1 where
    h: "process_hit ex clk st hit = Inr st1" and t: "process_hits ex clk st1 hits = Inr st'"
    by (auto simp: and_then_Inr)
  from Cons.IH [OF t] obtain rows2 where
    2: "grown ex st1 st' rows2"
       "list_all2 (\<lambda>r h. \<exists>ts. build_article_row ts h = Inr r) rows2
          (filter (\<lambda>h. \<not> id_in_index ex h) hits)" by blast
  show ?case
  proof (cases "id_in_index ex hit")
    case True
    with h have "st1 = st" by (simp add: process_hit_in_index)
    with 2 True have "grown ex st st' rows2 \<and>
        list_all2 (\<lambda>r h. \<exists>ts. build_article_row ts h = Inr r) rows2
          (filter (\<lambda>h. \<not> id_in_index ex h) (hit # hits))" by simp
    then show ?thesis by blast
  next
    case False
    from process_hit_new [OF h False] obtain row k where
      r: "build_article_row (clk (articles_checked st)) hit = Inr row"
      and k: "hit_key hit = Some k" "k \<notin> ex"
      and s: "st1 = st\<lparr>batch_to_append := batch_to_append st @ [row],
                    articles_checked := articles_checked st + 1\<rparr>" by blast
    from build_article_row_key [OF r] k have "fresh_row ex row"
      by (simp add: fresh_row_def)
    with s have "grown ex st st1 [row]" by (simp add: grown_def)
    from grown_trans [OF this 2(1)] have g: "grown ex st st' ([row] @ rows2)" .
    from r have "\<exists>ts. build_article_row ts hit = Inr row" by blast
    with 2(2) False have "list_all2 (\<lambda>r h. \<exists>ts. build_article_row ts h = Inr r)
          ([row] @ rows2) (filter (\<lambda>h. \<not> id_in_index ex h) (hit # hits))" by simp
    with g show ?thesis by blast
  qed
qed

lemma page_built:
  assumes "page fetch ex clk st offset = Inr f"
  shows "\<exists>rows. grown ex st (state_of f) rows \<and>
           list_all2 (\<lambda>r h. \<exists>ts. build_article_row ts h = Inr r) rows
             (filter (\<lambda>h. \<not> id_in_index ex h) (page_hits fetch offset))"
proof (cases "fetch offset")
  case RequestException
  with assms have "f = Stop (st\<lparr>requested := requested st @ [offset]\<rparr>)"
    by (simp add: page_def)
  with RequestException have "grown ex st (state_of f) [] \<and>
           list_all2 (\<lambda>r h. \<exists>ts. build_article_row ts h = Inr r) []
             (filter (\<lambda>h. \<not> id_in_index ex h) (page_hits fetch offset))"
    by (simp add: grown_def page_hits_def)
  then show ?thesis by blast
next
  case (Json body)
  let ?st1 = "st\<lparr>requested := requested st @ [offset]\<rparr>"
  from assms Json obtain hits where
    hits: "py_get body ''hits'' (JList []) = Inr hits"
    and rest: "(if \<not> truthy hits then Inr (Stop ?st1)
            else and_then (py_iter hits) (\<lambda>hs.
                 and_then (process_hits ex clk ?st1 hs) (\<lambda>st2.
                   Inr (if max_articles \<le> articles_checked st2 then Stop st2
                        else Next st2)))) = Inr f"
    by (auto simp: page_def Let_def and_then_Inr)
  show ?thesis
  proof (cases "truthy hits")
    case False
    with rest have f: "f = Stop ?st1" by simp
    from False have "(case py_iter hits of Inl e \<Rightarrow> [] | Inr hs \<Rightarrow> hs) = []"
      by (cases hits) auto
    with Json hits have "page_hits fetch offset = []" by (simp add: page_hits_def)
    with f have "grown ex st (state_of f) [] \<and>
           list_all2 (\<lambda>r h. \<exists>ts. build_article_row ts h = Inr r) []
             (filter (\<lambda>h. \<not> id_in_index ex h) (page_hits fetch offset))"
      by (simp add: grown_def)
    then show ?thesis by blast
  next
    case True
    with rest obtain hs st2 where
      hs: "py_iter hits = Inr hs" and p: "process_hits ex clk ?st1 hs = Inr st2"
      and f: "state_of f = st2"
      by (auto simp: and_then_Inr split: if_splits)
    from process_hits_built [OF p] obtain rows where
      g: "grown ex ?st1 st2 rows"
        "list_all2 (\<lambda>r h. \<exists>ts. build_article_row ts h = Inr r) rows
          (filter (\<lambda>h. \<not> id_in_index ex h) hs)" by blast
    have ph: "page_hits fetch offset = hs"
      using Json hits hs by (simp add: page_hits_def)
    from g f ph have "grown ex st (state_of f) rows \<and>
           list_all2 (\<lambda>r h. \<exists>ts. build_article_row ts h = Inr r) rows
             (filter (\<lambda>h. \<not> id_in_index ex h) (page_hits fetch offset))"
      by (simp add: grown_def)
    then show ?thesis by blast
  qed
qed

lemma paging_built:
  "paging fetch ex clk offsets st = Inr f \<Longrightarrow>
     \<exists>rows vis. grown ex st (state_of f) rows \<and>
        requested (state_of f) = requested st @ vis \<and> prefix vis offsets \<and>
        list_all2 (\<lambda>r h. \<exists>ts. build_article_row ts h = Inr r) rows
          (filter (\<lambda>h. \<not> id_in_index ex h) (served_hits fetch vis))"
proof (induction offsets arbitrary: st)
  case Nil
  then have "grown ex st (state_of f) [] \<and>
        requested (state_of f) = requested st @ [] \<and> prefix [] [] \<and>
        list_all2 (\<lambda>r h. \<exists>ts. build_article_row ts h = Inr r) []
          (filter (\<lambda>h. \<not> id_in_index ex h) (served_hits fetch []))"
    by (auto simp: grown_def served_hits_def)
  then show ?case by blast
next
  case (Cons offset offsets)
  from Cons.prems obtain f1 where
    p: "page fetch ex clk st offset = Inr f1"
    and r: "(case f1 of Stop st' \<Rightarrow> Inr (Stop st')
             | Next st' \<Rightarrow> paging fetch ex clk offsets st') = Inr f"
    by (auto simp: and_then_Inr)
  from page_built [OF p] obtain rows1 where
    1: "grown ex st (state_of f1) rows1"
       "list_all2 (\<lambda>r h. \<exists>ts. build_article_row ts h = Inr r) rows1
          (filter (\<lambda>h. \<not> id_in_index ex h) (page_hits fetch offset))" by blast
  from page_requested [OF p]
  have rq: "requested (state_of f1) = requested st @ [offset]" .
  show ?case
  proof (cases f1)
    case (Stop st1)
    with r have "f = Stop st1" by simp
    with 1 rq Stop have "grown ex st (state_of f) rows1 \<and>
        requested (state_of f) = requested st @ [offset] \<and>
        prefix [offset] (offset # offsets) \<and>
        list_all2 (\<lambda>r h. \<exists>ts. build_article_row ts h = Inr r) rows1
          (filter (\<lambda>h. \<not> id_in_index ex h) (served_hits fetch [offset]))"
      by (simp add: served_hits_def)
    then show ?thesis by blast
  next
    case (Next st1)
    with r have "paging fetch ex clk offsets st1 = Inr f" by simp
    from Cons.IH [OF this] obtain rows2 vis where
      2: "grown ex st1 (state_of f) rows2" "requested (state_of f) = requested st1 @ vis"
        "prefix vis offsets"
        "list_all2 (\<lambda>r h. \<exists>ts. build_article_row ts h = Inr r) rows2
          (filter (\<lambda>h. \<not> id_in_index ex h) (served_hits fetch vis))" by blast
    have "list_all2 (\<lambda>r h. \<exists>ts. build_article_row ts h = Inr r) (rows1 @ rows2)
          (filter (\<lambda>h. \<not> id_in_index ex h) (page_hits fetch offset) @
           filter (\<lambda>h. \<not> id_in_index ex h) (served_hits fetch vis))"
      using 1(2) 2(4) by (rule list_all2_appendI)
    with 1 2 rq Next have "grown ex st (state_of f) (rows1 @ rows2) \<and>
        requested (state_of f) = requested st @ (offset # vis) \<and>
        prefix (offset # vis) (offset # offsets) \<and>
        list_all2 (\<lambda>r h. \<exists>ts. build_article_row ts h = Inr r) (rows1 @ rows2)
          (filter (\<lambda>h. \<not> id_in_index ex h) (served_hits fetch (offset # vis)))"
      by (simp add: served_hits_def grown_trans)
    then show ?thesis by blast
  qed
qed

lemma finished_built:
  assumes "fetch_and_upload w = Finished st u"
  shows "\<exists>ex. init_sheet w = Inr () \<and> sheet_readable w \<and>
           get_existing_object_ids (sheet_records w) = Inr ex \<and>
           grown ex initial st (batch_to_append st) \<and>
           prefix (requested st) page_offsets \<and>
           list_all2 (\<lambda>r h. \<exists>ts. build_article_row ts h = Inr r) (batch_to_append st)
             (filter (\<lambda>h. \<not> id_in_index ex h) (served_hits (api w) (requested st))) \<and>
           u = upload_batch w (batch_to_append st)"
proof -
  from fetch_and_upload_Finished [OF assms] obtain ex f where
    i: "init_sheet w = Inr ()" "sheet_readable w"
    and e: "get_existing_object_ids (sheet_records w) = Inr ex"
    and p: "paging (api w) ex (now w) page_offsets initial = Inr f"
    and s: "st = state_of f" and u: "u = upload_batch w (batch_to_append st)" by blast
  from paging_built [OF p] s obtain rows vis where
    g: "grown ex initial st rows" and v: "requested st = requested initial @ vis"
    and pf: "prefix vis page_offsets"
    and b: "list_all2 (\<lambda>r h. \<exists>ts. build_article_row ts h = Inr r) rows
          (filter (\<lambda>h. \<not> id_in_index ex h) (served_hits (api w) vis))"
    by blast
  from grown_initial [OF g] have br: "batch_to_append st = rows" by simp
  from v have "vis = requested st" by (simp add: initial_def)
  with i e g pf b u br show ?thesis by blast
qed

lemma new_hits_finished:
  assumes "fetch_and_upload w = Finished st u"
    "get_existing_object_ids (sheet_records w) = Inr ex"
  shows "new_hits w =
           filter (\<lambda>h. \<not> id_in_index ex h) (served_hits (api w) (requested st))"
  using assms by (simp add: new_hits_def)

lemma batch_ids_new_hits:
  assumes "fetch_and_upload w = Finished st u"
  shows "map (\<lambda>r. r ! 9) (batch_to_append st) = map hit_id (new_hits w)"
proof -
  from finished_built [OF assms] obtain ex where
    e: "get_existing_object_ids (sheet_records w) = Inr ex"
    and b: "list_all2 (\<lambda>r h. \<exists>ts. build_article_row ts h = Inr r) (batch_to_append st)
             (filter (\<lambda>h. \<not> id_in_index ex h) (served_hits (api w) (requested st)))"
    by blast
  from built_ids [OF b] new_hits_finished [OF assms e] show ?thesis by simp
qed

lemma sheet_after_new_distinct:
  assumes "distinct (map hash_key (sheet_ids (sheet_records w)))"
    "distinct (map hash_key (filter truthy (map hit_id (new_hits w))))"
  shows "distinct (map hash_key (sheet_ids (sheet_after w (fetch_and_upload w))))"
proof (cases "fetch_and_upload w")
  case (Failed e)
  with assms(1) show ?thesis by (simp add: sheet_after_def)
next
  case (Crashed e)
  with assms(1) show ?thesis by (simp add: sheet_after_def)
next
  case (Finished st u)
  show ?thesis
  proof (cases "u = Uploaded (batch_to_append st)")
    case False
    from finished_batch [OF Finished] have "u = upload_batch w (batch_to_append st)" by blast
    with False have "sheet_after w (Finished st u) = sheet_records w"
      by (auto simp: sheet_after_def upload_batch_def split: if_splits)
    with Finished assms(1) show ?thesis by simp
  next
    case True
    let ?b = "batch_to_append st"
    from finished_batch [OF Finished] obtain ex where
      g: "grown ex initial st ?b" by blast
    have len: "list_all (\<lambda>r. length r = 11) ?b"
      using grown_fresh [OF g] by (auto simp: list_all_iff)
    have sa: "sheet_ids (sheet_after w (fetch_and_upload w)) =
            sheet_ids (sheet_records w) @ filter truthy (map (\<lambda>r. r ! 9) ?b)"
      using Finished True len
      by (simp add: sheet_after_def sheet_ids_append sheet_ids_rows)
    from batch_ids_new_hits [OF Finished] assms(2)
    have d2: "distinct (map hash_key (filter truthy (map (\<lambda>r. r ! 9) ?b)))" by simp
    have dj: "set (map hash_key (sheet_ids (sheet_records w))) \<inter>
              set (map hash_key (filter truthy (map (\<lambda>r. r ! 9) ?b))) = {}"
    proof -
      have "hash_key v \<noteq> hash_key (r ! 9)"
        if "v \<in> set (sheet_ids (sheet_records w))" "r \<in> set ?b" for v r
        using batch_not_in_sheet [OF Finished that(2) that(1)] by (auto simp: row_key_def)
      then show ?thesis by auto
    qed
    from assms(1) d2 dj show ?thesis unfolding sa by simp
  qed
qed

lemma runs_new_distinct:
  "distinct (map hash_key (sheet_ids records)) \<Longrightarrow> no_new_id_twice records ws \<Longrightarrow>
   distinct (map hash_key (sheet_ids (runs records ws)))"
proof (induction ws arbitrary: records)
  case Nil
  then show ?case by simp
next
  case (Cons w ws)
  let ?w = "w\<lparr>sheet_records := records\<rparr>"
  from Cons.prems have 1: "distinct (map hash_key (sheet_ids (sheet_records ?w)))"
    and 2: "distinct (map hash_key (filter truthy (map hit_id (new_hits ?w))))"
    and 3: "no_new_id_twice (sheet_after ?w (fetch_and_upload ?w)) ws"
    by simp_all
  from sheet_after_new_distinct [OF 1 2]
  have "distinct (map hash_key (sheet_ids (sheet_after ?w (fetch_and_upload ?w))))" .
  from Cons.IH [OF this 3] show ?case by simp
qed

lemma batch_distinct_iff:
  assumes "fetch_and_upload w = Finished st u"
  shows "distinct (map row_key (batch_to_append st)) \<longleftrightarrow>
         distinct (map hash_key (map hit_id (new_hits w)))"
proof -
  have "map row_key (batch_to_append st) =
          map hash_key (map (\<lambda>r. r ! 9) (batch_to_append st))"
    by (simp add: row_key_def comp_def)
  with batch_ids_new_hits [OF assms] show ?thesis by simp
qed

text \<open>A second run on the sheet the first one left.\<close>

lemma page_Next_count:
  "page fetch ex clk st offset = Inr (Next s) \<Longrightarrow> articles_checked s < max_articles"
  by (auto simp: page_def Let_def and_then_Inr split: response.splits if_splits)

lemma page_second_state:
  assumes p: "page fetch ex clk st offset = Inr f"
    and sub: "ex \<subseteq> ex2"
    and keys: "\<forall>r \<in> set (batch_to_append (state_of f)). \<exists>k. row_key r = Some k \<and> k \<in> ex2"
  shows "\<exists>f2. page fetch ex2 clk2 st2 offset = Inr f2 \<and>
           state_of f2 = st2\<lparr>requested := requested st2 @ [offset]\<rparr>"
proof (cases "fetch offset")
  case RequestException
  then show ?thesis by (simp add: page_def)
next
  case (Json body)
  let ?st1 = "st\<lparr>requested := requested st @ [offset]\<rparr>"
  let ?s2 = "st2\<lparr>requested := requested st2 @ [offset]\<rparr>"
  from p Json obtain hits where
    hits: "py_get body ''hits'' (JList []) = Inr hits"
    and rest: "(if \<not> truthy hits then Inr (Stop ?st1)
            else and_then (py_iter hits) (\<lambda>hs.
                 and_then (process_hits ex clk ?st1 hs) (\<lambda>st3.
                   Inr (if max_articles \<le> articles_checked st3 then Stop st3
                        else Next st3)))) = Inr f"
    by (auto simp: page_def Let_def and_then_Inr)
  show ?thesis
  proof (cases "truthy hits")
    case False
    with Json hits show ?thesis by (simp add: page_def)
  next
    case True
    with rest obtain hs st3 where
      hs: "py_iter hits = Inr hs" and ph: "process_hits ex clk ?st1 hs = Inr st3"
      and f: "state_of f = st3"
      by (auto simp: and_then_Inr split: if_splits)
    from keys f have "\<forall>r \<in> set (batch_to_append st3). \<exists>k. row_key r = Some k \<and> k \<in> ex2"
      by simp
    from process_hits_second [OF ph sub this]
    have "process_hits ex2 clk2 ?s2 hs = Inr ?s2" .
    with Json hits True hs show ?thesis by (simp add: page_def)
  qed
qed

lemma paging_second_state:
  assumes "paging fetch ex clk offsets st = Inr f"
    and "requested (state_of f) = requested st @ vis"
    and "articles_checked (state_of f) < max_articles \<or> vis = offsets"
    and "ex \<subseteq> ex2"
    and "\<forall>r \<in> set (batch_to_append (state_of f)). \<exists>k. row_key r = Some k \<and> k \<in> ex2"
    and "articles_checked st2 < max_articles"
  shows "\<exists>f2. paging fetch ex2 clk2 offsets st2 = Inr f2 \<and>
           state_of f2 = st2\<lparr>requested := requested st2 @ vis\<rparr>"
  using assms
proof (induction offsets arbitrary: st st2 vis)
  case Nil
  then show ?case by auto
next
  case (Cons offset offsets)
  from Cons.prems(1) obtain f1 where
    p: "page fetch ex clk st offset = Inr f1"
    and r: "(case f1 of Stop st' \<Rightarrow> Inr (Stop st')
             | Next st' \<Rightarrow> paging fetch ex clk offsets st') = Inr f"
    by (auto simp: and_then_Inr)
  from page_requested [OF p]
  have rq1: "requested (state_of f1) = requested st @ [offset]" .
  let ?s2 = "st2\<lparr>requested := requested st2 @ [offset]\<rparr>"
  show ?case
  proof (cases f1)
    case (Stop s1)
    with r have ff: "f = f1" by simp
    with rq1 Cons.prems(2) have vis: "vis = [offset]" by simp
    show ?thesis
    proof (cases "articles_checked (state_of f) < max_articles")
      case True
      from page_second [OF p True [unfolded ff] Cons.prems(4) Cons.prems(5) [unfolded ff]
          Cons.prems(6)]
      have "page fetch ex2 clk2 st2 offset = Inr (with_state f1 ?s2)" .
      with Stop vis show ?thesis by simp
    next
      case False
      with Cons.prems(3) vis have e: "offsets = []" by simp
      from page_second_state [OF p Cons.prems(4) Cons.prems(5) [unfolded ff]]
      obtain f2 where f2: "page fetch ex2 clk2 st2 offset = Inr f2"
        "state_of f2 = ?s2" by blast
      with e vis show ?thesis by (cases f2) simp_all
    qed
  next
    case (Next s1)
    with r have t: "paging fetch ex clk offsets s1 = Inr f" by simp
    from paging_grown [OF t] obtain rows vis' where
      g: "grown ex s1 (state_of f) rows"
      and v: "requested (state_of f) = requested s1 @ vis'" by blast
    from v rq1 Next Cons.prems(2) have vis: "vis = offset # vis'" by simp
    from Cons.prems(3) vis
    have h: "articles_checked (state_of f) < max_articles \<or> vis' = offsets" by simp
    from page_Next_count p Next
    have l1: "articles_checked (state_of f1) < max_articles" by simp
    from grown_batch_subset [OF g] Cons.prems(5) Next
    have k1: "\<forall>r \<in> set (batch_to_append (state_of f1)). \<exists>k. row_key r = Some k \<and> k \<in> ex2"
      by auto
    from page_second [OF p l1 Cons.prems(4) k1 Cons.prems(6)] Next
    have p2: "page fetch ex2 clk2 st2 offset = Inr (Next ?s2)" by simp
    have l2: "articles_checked ?s2 < max_articles" using Cons.prems(6) by simp
    from Cons.IH [OF t v h Cons.prems(4,5) l2] obtain f2 where
      q: "paging fetch ex2 clk2 offsets ?s2 = Inr f2"
         "state_of f2 = ?s2\<lparr>requested := requested ?s2 @ vis'\<rparr>" by blast
    with p2 vis show ?thesis by simp
  qed
qed

lemma served_hits_length:
  "list_all (\<lambda>off. length (page_hits fetch off) \<le> n) vis \<Longrightarrow>
     length (served_hits fetch vis) \<le> n * length vis"
  by (induction vis) (auto simp: served_hits_def)

lemma prefix_long: "prefix xs ys \<Longrightarrow> length ys \<le> length xs \<Longrightarrow> xs = ys"
  by (auto simp: prefix_def)

lemma full_pages_no_early_stop:
  assumes "fetch_and_upload w = Finished st u"
    and "list_all (\<lambda>off. length (page_hits (api w) off) \<le> page_size) page_offsets"
  shows "articles_checked st < max_articles \<or> requested st = page_offsets"
proof (cases "articles_checked st < max_articles")
  case True
  then show ?thesis by simp
next
  case False
  let ?vis = "requested st"
  from finished_built [OF assms(1)] obtain ex where
    g: "grown ex initial st (batch_to_append st)"
    and pf: "prefix ?vis page_offsets"
    and b: "list_all2 (\<lambda>r h. \<exists>ts. build_article_row ts h = Inr r) (batch_to_append st)
             (filter (\<lambda>h. \<not> id_in_index ex h) (served_hits (api w) ?vis))" by blast
  from grown_initial [OF g] have c: "articles_checked st = length (batch_to_append st)"
    by simp
  from list_all2_lengthD [OF b]
  have "length (batch_to_append st) \<le> length (served_hits (api w) ?vis)" by simp
  moreover from assms(2) set_mono_prefix [OF pf]
  have "list_all (\<lambda>off. length (page_hits (api w) off) \<le> page_size) ?vis"
    by (auto simp: list_all_iff)
  from served_hits_length [OF this]
  have "length (served_hits (api w) ?vis) \<le> page_size * length ?vis" .
  ultimately have "articles_checked st \<le> page_size * length ?vis" using c by simp
  with False have "length page_offsets \<le> length ?vis"
    by (simp add: max_articles_def page_size_def page_offsets_eval)
  from prefix_long [OF pf this] show ?thesis by simp
qed

lemma second_run_empty:
  assumes "fetch_and_upload w = Finished st u"
    and "u \<noteq> UploadError (batch_to_append st)"
    and "list_all (\<lambda>r. truthy (r ! 9)) (batch_to_append st)"
    and "articles_checked st < max_articles \<or> requested st = page_offsets"
  shows "fetch_and_upload
           (w\<lparr>sheet_records := sheet_after w (fetch_and_upload w),
              now := later_clock, append_rows_ok := later_ok\<rparr>)
         = Finished (initial\<lparr>requested := requested st\<rparr>) NoUpload"
proof -
  let ?b = "batch_to_append st"
  let ?w2 = "w\<lparr>sheet_records := sheet_after w (fetch_and_upload w),
              now := later_clock, append_rows_ok := later_ok\<rparr>"
  from fetch_and_upload_Finished [OF assms(1)] obtain ex f where
    i: "init_sheet w = Inr ()" and rd: "sheet_readable w"
    and e: "get_existing_object_ids (sheet_records w) = Inr ex"
    and p: "paging (api w) ex (now w) page_offsets initial = Inr f"
    and s: "st = state_of f" and u: "u = upload_batch w ?b" by blast
  from paging_grown [OF p] s obtain rows where g: "grown ex initial st rows" by blast
  from grown_initial [OF g] have br: "?b = rows" by simp
  with g have fr: "list_all (fresh_row ex) ?b" by (simp add: grown_def)
  from u assms(2) have sa: "sheet_after w (fetch_and_upload w) =
      sheet_records w @ map (zip COLUMNS) ?b"
    unfolding assms(1) by (auto simp: sheet_after_def upload_batch_def split: if_splits)
  from index_after_append [OF e fr assms(3)] obtain ex2 where
    e2: "get_existing_object_ids (sheet_records w @ map (zip COLUMNS) ?b) = Inr ex2"
    and sub: "ex \<subseteq> ex2"
    and keys: "\<forall>r \<in> set ?b. \<exists>k. row_key r = Some k \<and> k \<in> ex2" by blast
  have l0: "articles_checked initial < max_articles"
    by (simp add: initial_def max_articles_def)
  have v: "requested (state_of f) = requested initial @ requested (state_of f)"
    by (simp add: initial_def)
  have h: "articles_checked (state_of f) < max_articles \<or>
           requested (state_of f) = page_offsets"
    using assms(4) s by simp
  from paging_second_state [OF p v h sub keys [unfolded s] l0, of later_clock]
  obtain f2 where q: "paging (api w) ex2 later_clock page_offsets initial = Inr f2"
    and q2: "state_of f2 =
               initial\<lparr>requested := requested initial @ requested (state_of f)\<rparr>"
    by blast
  from q2 s have q3: "state_of f2 = initial\<lparr>requested := requested st\<rparr>"
    by (simp add: initial_def)
  have "init_sheet ?w2 = init_sheet w"
    by (simp add: init_sheet_def split: option.splits)
  with i have i2: "init_sheet ?w2 = Inr ()" by simp
  show ?thesis
    using i2 rd e2 q q3 sa
    by (simp add: fetch_and_upload_def get_all_records_def upload_batch_def initial_def)
qed

lemma process_hits_new_ids:
  assumes "\<forall>i \<in> set ids. KStr i \<notin> ex"
  shows "process_hits ex (\<lambda>n. ''T'') st (map hit_of_id ids) =
           Inr (st\<lparr>batch_to_append := batch_to_append st @ map row_of_id ids,
                   articles_checked := articles_checked st + length ids\<rparr>)"
  using assms
proof (induction ids arbitrary: st)
  case Nil
  then show ?case by simp
next
  case (Cons i ids)
  then have "KStr i \<notin> ex" by simp
  then have "process_hit ex (\<lambda>n. ''T'') st (hit_of_id i) =
      Inr (st\<lparr>batch_to_append := batch_to_append st @ [row_of_id i],
              articles_checked := articles_checked st + 1\<rparr>)"
    by (simp add: process_hit_def hit_of_id_def build_hit_of_id [unfolded hit_of_id_def])
  with Cons show ?case by simp
qed

lemma five_pages_page:
  "page five_pages {} (\<lambda>n. ''T'') st offset =
     Inr ((if max_articles \<le> articles_checked st + 10 then Stop else Next)
       (st\<lparr>requested := requested st @ [offset],
           batch_to_append := batch_to_append st @
             map row_of_id (page_ids
               (if offset = 0 then CHR ''a'' else if offset = 10 then CHR ''b''
                else if offset = 20 then CHR ''c'' else if offset = 30 then CHR ''d''
                else CHR ''e'')),
           articles_checked := articles_checked st + 10\<rparr>))"
proof -
  have l: "length (page_ids p) = 10" "page_ids p \<noteq> []" for p
    by (simp_all add: page_ids_def)
  show ?thesis
    by (simp add: page_def five_pages_def hits_body_def process_hits_new_ids l)
qed

lemma five_pages_first_run:
  "fetch_and_upload (world_of [] five_pages)
   = Finished
       \<lparr>articles_checked = 50,
        batch_to_append =
          map row_of_id (page_ids CHR ''a'') @ map row_of_id (page_ids CHR ''b'') @
          map row_of_id (page_ids CHR ''c'') @ map row_of_id (page_ids CHR ''d'') @
          map row_of_id (page_ids CHR ''e''),
        requested = [0, 10, 20, 30, 40]\<rparr>
       (Uploaded
          (map row_of_id (page_ids CHR ''a'') @ map row_of_id (page_ids CHR ''b'') @
           map row_of_id (page_ids CHR ''c'') @ map row_of_id (page_ids CHR ''d'') @
           map row_of_id (page_ids CHR ''e'')))"
proof -
  have pa: "paging five_pages {} (\<lambda>n. ''T'') page_offsets initial =
      Inr (Stop \<lparr>articles_checked = 50,
        batch_to_append =
          map row_of_id (page_ids CHR ''a'') @ map row_of_id (page_ids CHR ''b'') @
          map row_of_id (page_ids CHR ''c'') @ map row_of_id (page_ids CHR ''d'') @
          map row_of_id (page_ids CHR ''e''),
        requested = [0, 10, 20, 30, 40]\<rparr>)"
    by (simp add: page_offsets_eval five_pages_page initial_def max_articles_def)
  have ix: "get_existing_object_ids [] = Inr {}"
    by (simp add: get_existing_object_ids_def)
  have ne: "page_ids CHR ''a'' \<noteq> []" by (simp add: page_ids_def)
  show ?thesis
    using pa ix ne init_world_of [of "[]" five_pages]
    by (simp add: fetch_and_upload_def get_all_records_def upload_batch_def world_of_def)
qed

lemma falsy_not_in_index:
  assumes "get_existing_object_ids records = Inr ex"
    "py_get hit ''id'' JNull = Inr i" "\<not> truthy i"
  shows "\<not> id_in_index ex hit"
proof (cases "hash_key i")
  case None
  with assms(2) show ?thesis by (simp add: id_in_index_def hit_key_def)
next
  case (Some k)
  from falsy_not_indexed [OF assms(1,3) Some] Some assms(2) show ?thesis
    by (simp add: id_in_index_def hit_key_def)
qed

lemma falsy_hit_appended:
  assumes r: "fetch_and_upload w = Finished st u"
    and h: "hit \<in> set (served_hits (api w) (requested st))"
    and i: "py_get hit ''id'' JNull = Inr i" "\<not> truthy i"
  shows "(\<exists>row \<in> set (batch_to_append st).
            (\<exists>ts. build_article_row ts hit = Inr row) \<and> row ! 9 = i \<and>
            row_get (zip COLUMNS row) ''Object ID'' = i \<and>
            (append_rows_ok w (batch_to_append st)
               \<longrightarrow> zip COLUMNS row \<in> set (sheet_after w (fetch_and_upload w)))) \<and>
         u \<noteq> NoUpload \<and>
         (append_rows_ok w (batch_to_append st) \<longrightarrow> u = Uploaded (batch_to_append st)) \<and>
         (\<not> append_rows_ok w (batch_to_append st)
            \<longrightarrow> u = UploadError (batch_to_append st))"
proof -
  let ?b = "batch_to_append st"
  from finished_built [OF r] obtain ex where
    e: "get_existing_object_ids (sheet_records w) = Inr ex"
    and b: "list_all2 (\<lambda>r h. \<exists>ts. build_article_row ts h = Inr r) ?b
             (filter (\<lambda>h. \<not> id_in_index ex h) (served_hits (api w) (requested st)))"
    and u: "u = upload_batch w ?b" by blast
  from falsy_not_in_index [OF e i] h
  have "hit \<in> set (filter (\<lambda>h. \<not> id_in_index ex h) (served_hits (api w) (requested st)))"
    by simp
  from built_member [OF b this] obtain row ts where
    m: "row \<in> set ?b" and bu: "build_article_row ts hit = Inr row" by blast
  from build_article_row_Inr [OF bu] i(1) have id: "row ! 9 = i" by auto
  from build_article_row_id [OF bu] have len: "length row = 11" by simp
  from row_get_zip [OF len] id have rg: "row_get (zip COLUMNS row) ''Object ID'' = i"
    by simp
  from m have ne: "?b \<noteq> []" by auto
  have sa: "zip COLUMNS row \<in> set (sheet_after w (fetch_and_upload w))"
    if "append_rows_ok w ?b"
    using that m ne u unfolding r by (simp add: sheet_after_def upload_batch_def)
  from u ne have u1: "u \<noteq> NoUpload"
    and u2: "append_rows_ok w ?b \<longrightarrow> u = Uploaded ?b"
    and u3: "\<not> append_rows_ok w ?b \<longrightarrow> u = UploadError ?b"
    by (simp_all add: upload_batch_def)
  from m bu id rg sa u1 u2 u3 show ?thesis by blast
qed

lemma image_url_of_shape:
  assumes "image_url_of hit = Inr u"
  shows "\<exists>s. thumb_of hit = Inr (JStr s) \<and> u = (if prefix ''//'' s then ''https:'' @ s else s)"
proof (cases "thumb_of hit")
  case (Inl e)
  with assms show ?thesis by (simp add: image_url_of_def)
next
  case (Inr v)
  with assms show ?thesis
    by (cases v) (simp_all add: image_url_of_def take2_prefix)
qed

lemma thumb_of_shape:
  assumes "thumb_of hit = Inr v"
  shows "\<exists>kvs. hit = JObj kvs \<and>
     (map_of kvs ''display'' = None \<and> v = JStr [] \<or>
      (\<exists>d. map_of kvs ''display'' = Some (JObj d) \<and>
         (map_of d ''thumbnail'' = None \<and> v = JStr [] \<or>
          (\<exists>t. map_of d ''thumbnail'' = Some (JObj t) \<and>
             (map_of t ''src'' = None \<and> v = JStr [] \<or> map_of t ''src'' = Some v)))))"
proof (cases hit)
  case (JObj kvs)
  show ?thesis
  proof (cases "map_of kvs ''display''")
    case None
    with assms JObj show ?thesis by (simp add: thumb_of_def)
  next
    case (Some dv)
    show ?thesis
    proof (cases dv)
      case (JObj d)
      note d = this
      show ?thesis
      proof (cases "map_of d ''thumbnail''")
        case None
        with assms \<open>hit = JObj kvs\<close> Some d show ?thesis by (simp add: thumb_of_def)
      next
        case (Some tv)
        note tv = this
        show ?thesis
        proof (cases tv)
          case (JObj t)
          with assms \<open>hit = JObj kvs\<close> \<open>map_of kvs ''display'' = Some dv\<close> d tv
          show ?thesis by (cases "map_of t ''src''") (simp_all add: thumb_of_def)
        qed (use assms \<open>hit = JObj kvs\<close> \<open>map_of kvs ''display'' = Some dv\<close> d tv
             in \<open>simp_all add: thumb_of_def\<close>)
      qed
    qed (use assms \<open>hit = JObj kvs\<close> Some in \<open>simp_all add: thumb_of_def\<close>)
  qed
qed (use assms in \<open>simp_all add: thumb_of_def\<close>)

lemma build_article_row_total:
  assumes "publication_date hit = Inr d" "author_str_of hit = Inr a"
    "faculty_str_of hit = Inr f" "image_url_of hit = Inr u"
    "py_get hit ''topic'' (JList []) = Inr t" "normalize_categories t = Inr cats"
  shows "\<exists>title descr url i.
     build_article_row ts hit =
       Inr [title, JStr d, JStr a, JStr f, descr, url, JStr u,
            JStr (join '', '' (fst cats)), JStr (join '', '' (snd cats)), i, JStr ts]"
proof (cases hit)
  case (JObj kvs)
  with assms show ?thesis by (simp add: build_article_row_def)
qed (use assms(5) in simp_all)

lemma build_article_row_image_error:
  "image_url_of hit = Inl e \<Longrightarrow> \<exists>e'. build_article_row ts hit = Inl e'"
  by (cases "build_article_row ts hit") (auto dest: build_article_row_Inr)

section \<open>Properties of the Category Normalizer\<close>

lemma not_defined_valid: "''Not Defined'' \<in> all_valid_categories"
  by (simp add: all_valid_categories_def)

text \<open>
  C4. On an absent (\<open>JNull\<close>) or empty topic list the normalizer returns
  \<open>([''Not Defined''], [])\<close>. On any list it returns normally: the entries that are
  not strings are dropped, the unknown part is the strings outside the allow-list and
  the allowed part the strings inside it, both in the order of the input, and an
  allowed part that would be empty is \<open>[''Not Defined'']\<close> instead, so the allowed
  part is never empty and always within the allow-list.
\<close>

theorem normalize_categories_partition:
  "normalize_categories JNull = Inr ([''Not Defined''], []) \<and>
   normalize_categories (JList []) = Inr ([''Not Defined''], []) \<and>
   (\<exists>allowed new.
      normalize_categories (JList ts) = Inr (allowed, new) \<and>
      new = filter (\<lambda>t. t \<notin> all_valid_categories) (List.map_filter str_of ts) \<and>
      allowed =
        (if filter (\<lambda>t. t \<in> all_valid_categories) (List.map_filter str_of ts) = []
         then [''Not Defined'']
         else filter (\<lambda>t. t \<in> all_valid_categories) (List.map_filter str_of ts)) \<and>
      allowed \<noteq> [] \<and>
      set allowed \<subseteq> all_valid_categories \<and>
      set new \<inter> all_valid_categories = {} \<and>
      subseq new (List.map_filter str_of ts))"
proof -
  have a: "normalize_categories JNull = Inr ([''Not Defined''], [])"
    by (simp add: normalize_categories_def)
  have b: "normalize_categories (JList []) = Inr ([''Not Defined''], [])"
    by (simp add: normalize_categories_def)
  let ?strs = "List.map_filter str_of ts"
  let ?al = "filter (\<lambda>t. t \<in> all_valid_categories) ?strs"
  let ?new = "filter (\<lambda>t. t \<notin> all_valid_categories) ?strs"
  have c: "normalize_categories (JList ts) =
             Inr (if ?al = [] then [''Not Defined''] else ?al, ?new)"
  proof (cases "ts = []")
    case True
    then show ?thesis by (simp add: normalize_categories_def map_filter_simps)
  next
    case False
    then show ?thesis
      by (simp add: normalize_categories_def and_then_def Let_def)
  qed
  have d: "set (if ?al = [] then [''Not Defined''] else ?al) \<subseteq> all_valid_categories"
    using not_defined_valid by auto
  have e: "set ?new \<inter> all_valid_categories = {}" by auto
  have f: "subseq ?new ?strs" by simp
  from a b c d e f show ?thesis by auto
qed

theorem normalize_categories_partition_witness:
  "normalize_categories
     (JList [JStr ''Strategy'', JNum 3, JStr ''Blockchain'', JStr ''Leadership''])
     = Inr ([''Strategy'', ''Leadership''], [''Blockchain'']) \<and>
   normalize_categories (JList [JStr ''Blockchain'', JNull])
     = Inr ([''Not Defined''], [''Blockchain''])"
proof -
  have v: "''Strategy'' \<in> all_valid_categories" "''Leadership'' \<in> all_valid_categories"
    "''Blockchain'' \<notin> all_valid_categories"
    by (simp_all add: all_valid_categories_def)
  show ?thesis
    using normalize_categories_partition
            [of "[JStr ''Strategy'', JNum 3, JStr ''Blockchain'', JStr ''Leadership'']"]
      normalize_categories_partition [of "[JStr ''Blockchain'', JNull]"] v
    by (simp add: map_filter_simps)
qed

section \<open>Properties of the Record Mapper\<close>

text \<open>
  C8 (as amended). The Image URL field. For a hit whose \<open>display\<close> holds a \<open>thumbnail\<close>
  object whose \<open>src\<close> is the string \<open>s\<close>, the field is \<open>https:\<close> followed by \<open>s\<close> when
  \<open>s\<close> starts with \<open>//\<close>, and \<open>s\<close> unchanged otherwise. When the source is absent
  (no \<open>display\<close>, or a \<open>display\<close> without \<open>thumbnail\<close>, or a \<open>thumbnail\<close> without
  \<open>src\<close>) the field is the empty string. The field has a value on no other hit:
  whenever it has one, the hit is an object, its \<open>display\<close> and \<open>thumbnail\<close>, where
  present, are objects, and its \<open>src\<close>, where present, is a string. The mapper
  returns a row, with that value in its seventh cell, whenever the date, author,
  faculty, image and category fields all have a value; every row it returns has the
  field in its seventh cell; and when the field raises, the mapper returns no row.
\<close>

theorem image_url_field:
  "(map_of kvs ''display'' = Some (JObj d) \<and> map_of d ''thumbnail'' = Some (JObj t) \<and>
    map_of t ''src'' = Some (JStr s)
      \<longrightarrow> image_url_of (JObj kvs) = Inr (if prefix ''//'' s then ''https:'' @ s else s)) \<and>
   (map_of kvs ''display'' = None \<or>
    (map_of kvs ''display'' = Some (JObj d) \<and>
       (map_of d ''thumbnail'' = None \<or>
        (map_of d ''thumbnail'' = Some (JObj t) \<and> map_of t ''src'' = None)))
      \<longrightarrow> image_url_of (JObj kvs) = Inr []) \<and>
   (image_url_of hit = Inr u
      \<longrightarrow> (\<exists>v. thumb_of hit = Inr (JStr v) \<and>
               u = (if prefix ''//'' v then ''https:'' @ v else v)) \<and>
          (\<exists>kvs. hit = JObj kvs \<and>
             (map_of kvs ''display'' = None \<or>
              (\<exists>d. map_of kvs ''display'' = Some (JObj d) \<and>
                 (map_of d ''thumbnail'' = None \<or>
                  (\<exists>t. map_of d ''thumbnail'' = Some (JObj t) \<and>
                     (map_of t ''src'' = None \<or>
                      (\<exists>v. map_of t ''src'' = Some (JStr v))))))))) \<and>
   (publication_date hit = Inr da \<and> author_str_of hit = Inr a \<and>
    faculty_str_of hit = Inr f \<and> image_url_of hit = Inr u \<and>
    py_get hit ''topic'' (JList []) = Inr tp \<and> normalize_categories tp = Inr cats
      \<longrightarrow> (\<exists>title descr url i.
            build_article_row ts hit =
              Inr [title, JStr da, JStr a, JStr f, descr, url, JStr u,
                   JStr (join '', '' (fst cats)), JStr (join '', '' (snd cats)), i,
                   JStr ts])) \<and>
   (build_article_row ts hit = Inr row
      \<longrightarrow> (\<exists>u. image_url_of hit = Inr u \<and> row ! 6 = JStr u)) \<and>
   (image_url_of hit = Inl e \<longrightarrow> (\<exists>e'. build_article_row ts hit = Inl e'))"
proof -
  have a: "image_url_of (JObj kvs) = Inr (if prefix ''//'' s then ''https:'' @ s else s)"
    if "map_of kvs ''display'' = Some (JObj d)" "map_of d ''thumbnail'' = Some (JObj t)"
       "map_of t ''src'' = Some (JStr s)"
    using that by (simp add: image_url_of_def thumb_of_def take2_prefix)
  have b: "image_url_of (JObj kvs) = Inr []"
    if "map_of kvs ''display'' = None \<or>
    (map_of kvs ''display'' = Some (JObj d) \<and>
       (map_of d ''thumbnail'' = None \<or>
        (map_of d ''thumbnail'' = Some (JObj t) \<and> map_of t ''src'' = None)))"
    using that by (auto simp: image_url_of_def thumb_of_def)
  have c1: "\<exists>v. thumb_of hit = Inr (JStr v) \<and>
               u = (if prefix ''//'' v then ''https:'' @ v else v)"
    if "image_url_of hit = Inr u"
    using image_url_of_shape [OF that] .
  have c2: "\<exists>kvs. hit = JObj kvs \<and>
             (map_of kvs ''display'' = None \<or>
              (\<exists>d. map_of kvs ''display'' = Some (JObj d) \<and>
                 (map_of d ''thumbnail'' = None \<or>
                  (\<exists>t. map_of d ''thumbnail'' = Some (JObj t) \<and>
                     (map_of t ''src'' = None \<or>
                      (\<exists>v. map_of t ''src'' = Some (JStr v)))))))"
    if "image_url_of hit = Inr u"
  proof -
    from image_url_of_shape [OF that] obtain v where "thumb_of hit = Inr (JStr v)" by blast
    from thumb_of_shape [OF this] show ?thesis by blast
  qed
  have d: "\<exists>title descr url i.
            build_article_row ts hit =
              Inr [title, JStr da, JStr a, JStr f, descr, url, JStr u,
                   JStr (join '', '' (fst cats)), JStr (join '', '' (snd cats)), i,
                   JStr ts]"
    if "publication_date hit = Inr da" "author_str_of hit = Inr a"
    "faculty_str_of hit = Inr f" "image_url_of hit = Inr u"
    "py_get hit ''topic'' (JList []) = Inr tp" "normalize_categories tp = Inr cats"
    using build_article_row_total [OF that] .
  have e: "\<exists>u. image_url_of hit = Inr u \<and> row ! 6 = JStr u"
    if "build_article_row ts hit = Inr row"
    using build_article_row_Inr [OF that] by auto
  have f: "\<exists>e'. build_article_row ts hit = Inl e'" if "image_url_of hit = Inl e"
    using build_article_row_image_error [OF that] .
  from a b c1 c2 d e f show ?thesis by blast
qed

theorem image_url_field_witness:
  "build_article_row ''T'' (JObj [(''id'', JStr ''a''), (''display'', JObj [(''thumbnail'',
       JObj [(''src'', JStr ''//img.example.com/x.jpg'')])])])
     = Inr [JStr [], JStr [], JStr [], JStr [], JStr [], JStr [],
            JStr ''https://img.example.com/x.jpg'', JStr ''Not Defined'', JStr [],
            JStr ''a'', JStr ''T''] \<and>
   image_url_of (JObj [(''id'', JStr ''a''), (''display'', JObj [(''thumbnail'',
       JObj [(''src'', JStr ''//img.example.com/x.jpg'')])])])
     = Inr ''https://img.example.com/x.jpg'' \<and>
   image_url_of (JObj [(''display'', JObj [(''thumbnail'',
       JObj [(''src'', JStr ''https://already-absolute/x.jpg'')])])])
     = Inr ''https://already-absolute/x.jpg'' \<and>
   image_url_of (JObj [(''id'', JStr ''a'')]) = Inr []"
proof -
  let ?kvs = "[(''id'', JStr ''a''), (''display'', JObj [(''thumbnail'',
       JObj [(''src'', JStr ''//img.example.com/x.jpg'')])])]"
  note t = image_url_field [where kvs = ?kvs
       and d = "[(''thumbnail'', JObj [(''src'', JStr ''//img.example.com/x.jpg'')])]"
       and t = "[(''src'', JStr ''//img.example.com/x.jpg'')]"
       and s = "''//img.example.com/x.jpg''" and hit = "JObj ?kvs" and ts = "''T''"
       and da = "[]" and a = "[]" and f = "[]" and u = "''https://img.example.com/x.jpg''"
       and tp = "JList []" and cats = "([''Not Defined''], [])"]
  have s: "map_of ?kvs ''display''
             = Some (JObj [(''thumbnail'', JObj [(''src'', JStr ''//img.example.com/x.jpg'')])])"
    "map_of [(''thumbnail'', JObj [(''src'', JStr ''//img.example.com/x.jpg'')])] ''thumbnail''
             = Some (JObj [(''src'', JStr ''//img.example.com/x.jpg'')])"
    "map_of [(''src'', JStr ''//img.example.com/x.jpg'')] ''src''
             = Some (JStr ''//img.example.com/x.jpg'')"
    "prefix ''//'' ''//img.example.com/x.jpg''"
    by simp_all
  from t s have i: "image_url_of (JObj ?kvs) = Inr ''https://img.example.com/x.jpg''"
    by simp
  have h: "publication_date (JObj ?kvs) = Inr []" "author_str_of (JObj ?kvs) = Inr []"
    "faculty_str_of (JObj ?kvs) = Inr []"
    "py_get (JObj ?kvs) ''topic'' (JList []) = Inr (JList [])"
    "normalize_categories (JList []) = Inr ([''Not Defined''], [])"
    by code_simp+
  note t4 = t [THEN conjunct2, THEN conjunct2, THEN conjunct2, THEN conjunct1, rule_format]
  from i h have "publication_date (JObj ?kvs) = Inr [] \<and> author_str_of (JObj ?kvs) = Inr [] \<and>
    faculty_str_of (JObj ?kvs) = Inr [] \<and>
    image_url_of (JObj ?kvs) = Inr ''https://img.example.com/x.jpg'' \<and>
    py_get (JObj ?kvs) ''topic'' (JList []) = Inr (JList []) \<and>
    normalize_categories (JList []) = Inr ([''Not Defined''], [])"
    by (intro conjI)
  from t4 [OF this] have "\<exists>title descr url i.
      build_article_row ''T'' (JObj ?kvs) =
        Inr [title, JStr [], JStr [], JStr [], descr, url,
             JStr ''https://img.example.com/x.jpg'',
             JStr (join '', '' [''Not Defined'']),
             JStr (join '', '' []), i, JStr ''T'']"
    by simp
  then obtain title descr url i where
    "build_article_row ''T'' (JObj ?kvs) =
        Inr [title, JStr [], JStr [], JStr [], descr, url,
             JStr ''https://img.example.com/x.jpg'',
             JStr (join '', '' [''Not Defined'']),
             JStr (join '', '' []), i, JStr ''T'']"
    by blast
  moreover have "build_article_row ''T'' (JObj ?kvs) =
        Inr [JStr [], JStr [], JStr [], JStr [], JStr [], JStr [],
             JStr ''https://img.example.com/x.jpg'', JStr ''Not Defined'', JStr [],
             JStr ''a'', JStr ''T'']"
    by code_simp
  ultimately have r: "build_article_row ''T'' (JObj ?kvs) =
        Inr [JStr [], JStr [], JStr [], JStr [], JStr [], JStr [],
             JStr ''https://img.example.com/x.jpg'', JStr ''Not Defined'', JStr [],
             JStr ''a'', JStr ''T'']"
    by simp
  have p: "image_url_of (JObj [(''display'', JObj [(''thumbnail'',
       JObj [(''src'', JStr ''https://already-absolute/x.jpg'')])])])
     = Inr ''https://already-absolute/x.jpg''"
    using image_url_field [of "[(''display'', JObj [(''thumbnail'',
       JObj [(''src'', JStr ''https://already-absolute/x.jpg'')])])]"
       "[(''thumbnail'', JObj [(''src'', JStr ''https://already-absolute/x.jpg'')])]"
       "[(''src'', JStr ''https://already-absolute/x.jpg'')]"
       "''https://already-absolute/x.jpg''"]
    by (simp add: prefix_def)
  have q: "image_url_of (JObj [(''id'', JStr ''a'')]) = Inr []"
    using image_url_field [of "[(''id'', JStr ''a'')]"] by simp
  from r i p q show ?thesis by blast
qed

text \<open>
  C8 as stated, for every hit, does not hold: a \<open>src\<close> that is \<^verbatim>\<open>null\<close> has no
  \<^verbatim>\<open>startswith\<close>, and a \<open>thumbnail\<close> or a \<open>display\<close> that is \<^verbatim>\<open>null\<close> has no \<^verbatim>\<open>get\<close>. On
  each of these hits line 81 or 82 raises \<^verbatim>\<open>AttributeError\<close> and the mapper returns
  no row; in the last one the date and the author are read without an error, so the
  exception is the image field's.
\<close>

theorem image_url_counterexample:
  "image_url_of (JObj [(''id'', JStr ''a''), (''display'', JObj [(''thumbnail'',
       JObj [(''src'', JNull)])])]) = Inl AttributeError \<and>
   build_article_row ''T'' (JObj [(''id'', JStr ''a''), (''display'', JObj [(''thumbnail'',
       JObj [(''src'', JNull)])])]) = Inl AttributeError \<and>
   image_url_of (JObj [(''id'', JStr ''a''), (''display'', JObj [(''thumbnail'', JNull)])])
     = Inl AttributeError \<and>
   build_article_row ''T''
     (JObj [(''id'', JStr ''a''), (''display'', JObj [(''thumbnail'', JNull)])])
     = Inl AttributeError \<and>
   image_url_of (JObj [(''id'', JStr ''a''), (''sortDate'', JStr ''2023-05-01''),
       (''author'', JList [JStr ''x'']), (''display'', JNull)]) = Inl AttributeError \<and>
   publication_date (JObj [(''id'', JStr ''a''), (''sortDate'', JStr ''2023-05-01''),
       (''author'', JList [JStr ''x'']), (''display'', JNull)]) = Inr ''2023-05-01'' \<and>
   author_str_of (JObj [(''id'', JStr ''a''), (''sortDate'', JStr ''2023-05-01''),
       (''author'', JList [JStr ''x'']), (''display'', JNull)]) = Inr ''x'' \<and>
   build_article_row ''T'' (JObj [(''id'', JStr ''a''), (''sortDate'', JStr ''2023-05-01''),
       (''author'', JList [JStr ''x'']), (''display'', JNull)]) = Inl AttributeError"
  by code_simp

text \<open>
  C5 (as amended). The Publication Date field. For a hit whose primary date is truthy,
  or whose \<open>display\<close> is absent or an object, selecting the date value and computing
  the field returns normally. The field is the date-only ISO string of the parsed
  date when the selected value is a string that the parser accepts after every
  \<open>Z\<close> in it was removed; it is the empty string when the parser rejects that text,
  and when the value is absent, falsy or not a string. Removing every \<open>Z\<close> is the same
  as stripping one trailing \<open>Z\<close> for a string with no other \<open>Z\<close>. The second cell of
  every row the mapper returns is that value.
\<close>

theorem publication_date_field:
  "(py_get (JObj kvs) ''sortDate'' JNull = Inr sd \<and>
    (truthy sd \<or> map_of kvs ''display'' = None \<or>
     (\<exists>d. map_of kvs ''display'' = Some (JObj d)))
      \<longrightarrow> (\<exists>v. date_str_of (JObj kvs) = Inr v \<and>
               publication_date (JObj kvs) = Inr (date_iso_of v))) \<and>
   (fromisoformat (replace_Z s) = Some ymd \<longrightarrow> date_iso_of (JStr s) = isoformat ymd) \<and>
   (fromisoformat (replace_Z s) = None \<longrightarrow> date_iso_of (JStr s) = []) \<and>
   (str_of v = None \<or> \<not> truthy v \<longrightarrow> date_iso_of v = []) \<and>
   (CHR ''Z'' \<notin> set (butlast s) \<longrightarrow> replace_Z s = strip_trailing_Z s) \<and>
   (build_article_row ts hit = Inr row
      \<longrightarrow> (\<exists>p. publication_date hit = Inr p \<and> row ! 1 = JStr p))"
proof -
  have a: "\<exists>v. date_str_of (JObj kvs) = Inr v \<and>
               publication_date (JObj kvs) = Inr (date_iso_of v)"
    if "py_get (JObj kvs) ''sortDate'' JNull = Inr sd \<and>
    (truthy sd \<or> map_of kvs ''display'' = None \<or>
     (\<exists>d. map_of kvs ''display'' = Some (JObj d)))"
  proof -
    from that date_str_of_total obtain v where "date_str_of (JObj kvs) = Inr v" by blast
    then show ?thesis by (simp add: publication_date_def)
  qed
  have b: "date_iso_of (JStr s) = isoformat ymd" if "fromisoformat (replace_Z s) = Some ymd"
  proof -
    from that have "s \<noteq> []"
      by (auto simp: fromisoformat_def replace_Z_def split: if_splits)
    with that show ?thesis by (simp add: date_iso_of_def)
  qed
  have c: "date_iso_of (JStr s) = []" if "fromisoformat (replace_Z s) = None"
    using that by (simp add: date_iso_of_def)
  have d: "date_iso_of v = []" if "str_of v = None \<or> \<not> truthy v"
    using that by (cases v) (auto simp: date_iso_of_def)
  have e: "\<exists>p. publication_date hit = Inr p \<and> row ! 1 = JStr p"
    if "build_article_row ts hit = Inr row"
    using build_article_row_Inr [OF that] by auto
  from a b c d e replace_Z_strip show ?thesis by blast
qed

theorem publication_date_field_witness:
  "publication_date (JObj [(''sortDate'', JStr ''2023-05-01T00:00:00Z'')]) = Inr ''2023-05-01'' \<and>
   publication_date (JObj [(''sortDate'', JStr ''not-a-date'')]) = Inr [] \<and>
   publication_date (JObj [(''id'', JStr ''a'')]) = Inr []"
proof -
  have p: "fromisoformat (replace_Z ''2023-05-01T00:00:00Z'') = Some (2023, 5, 1)"
    "fromisoformat (replace_Z ''not-a-date'') = None"
    "isoformat (2023, 5, 1) = ''2023-05-01''"
    by code_simp+
  have d: "date_str_of (JObj [(''sortDate'', JStr ''2023-05-01T00:00:00Z'')]) = Inr (JStr ''2023-05-01T00:00:00Z'')"
    "date_str_of (JObj [(''sortDate'', JStr ''not-a-date'')]) = Inr (JStr ''not-a-date'')"
    "date_str_of (JObj [(''id'', JStr ''a'')]) = Inr JNull"
    by (simp_all add: date_str_of_def)
  show ?thesis
    using publication_date_field [of "[(''sortDate'', JStr ''2023-05-01T00:00:00Z'')]"
        "JStr ''2023-05-01T00:00:00Z''" "''2023-05-01T00:00:00Z''" "(2023, 5, 1)" JNull]
      publication_date_field [of "[(''sortDate'', JStr ''not-a-date'')]"
        "JStr ''not-a-date''" "''not-a-date''" _ JNull]
      publication_date_field [of "[(''id'', JStr ''a'')]" JNull _ _ JNull]
      p d
    by simp
qed

text \<open>
  The claim as written fails: \<open>2023-05-01Z00:00:00\<close> has no trailing \<open>Z\<close> and parses
  (any character may separate date and time), yet the field is empty, because the
  \<open>Z\<close> in the middle is removed as well; \<open>Z2023-05-01\<close> does not parse, yet the
  field is \<open>2023-05-01\<close>; and a hit with no primary date whose \<open>display\<close> is
  \<open>null\<close> raises before the \<^verbatim>\<open>try\<close> is entered.
\<close>

theorem publication_date_counterexample:
  "fromisoformat (strip_trailing_Z ''2023-05-01Z00:00:00'') = Some (2023, 5, 1) \<and>
   isoformat (2023, 5, 1) = ''2023-05-01'' \<and>
   publication_date (JObj [(''sortDate'', JStr ''2023-05-01Z00:00:00'')]) = Inr [] \<and>
   fromisoformat (strip_trailing_Z ''Z2023-05-01'') = None \<and>
   publication_date (JObj [(''sortDate'', JStr ''Z2023-05-01'')]) = Inr ''2023-05-01'' \<and>
   publication_date (JObj [(''display'', JNull)]) = Inl AttributeError"
  by code_simp

section \<open>Properties of the Pipeline Orchestrator\<close>

text \<open>
  C7. When \<^verbatim>\<open>init_sheet\<close> fails, the run ends as \<open>Failed\<close> with that error and no
  state: whatever the sheet holds, whether it can be read, whatever the API would
  answer, the clock and the sheet's acceptance of a batch, the result is the same, so
  none of them was consulted (no index built, no page fetched, no append attempted),
  and the sheet is as it was. An unset or empty credential variable, a descriptor that
  is not JSON, and a refused connection each make \<^verbatim>\<open>init_sheet\<close> fail.
\<close>

theorem connection_failure_aborts:
  "(init_sheet w = Inl e \<longrightarrow>
      fetch_and_upload w = Failed e \<and>
      fetch_and_upload (w\<lparr>sheet_records := recs, sheet_readable := rd, api := a,
                          now := c, append_rows_ok := ok\<rparr>) = Failed e \<and>
      sheet_after w (fetch_and_upload w) = sheet_records w) \<and>
   (SERVICE_ACCOUNT_JSON w = None \<or> SERVICE_ACCOUNT_JSON w = Some []
      \<longrightarrow> init_sheet w = Inl NotSet) \<and>
   (SERVICE_ACCOUNT_JSON w = Some s \<and> s \<noteq> [] \<and> json_loads w s = None
      \<longrightarrow> init_sheet w = Inl InvalidJson) \<and>
   (SERVICE_ACCOUNT_JSON w = Some s \<and> s \<noteq> [] \<and> json_loads w s = Some info \<and>
    \<not> open_worksheet w info
      \<longrightarrow> init_sheet w = Inl ConnectFailed)"
proof -
  have i: "init_sheet (w\<lparr>sheet_records := recs, sheet_readable := rd, api := a,
                          now := c, append_rows_ok := ok\<rparr>) = init_sheet w"
    by (simp add: init_sheet_def split: option.splits)
  have a: "fetch_and_upload w = Failed e" if "init_sheet w = Inl e"
    using that by (simp add: fetch_and_upload_def)
  have b: "fetch_and_upload (w\<lparr>sheet_records := recs, sheet_readable := rd, api := a,
                          now := c, append_rows_ok := ok\<rparr>) = Failed e"
    if "init_sheet w = Inl e"
    using that i by (simp add: fetch_and_upload_def)
  have c: "sheet_after w (fetch_and_upload w) = sheet_records w" if "init_sheet w = Inl e"
    using a [OF that] by (simp add: sheet_after_def)
  have d: "init_sheet w = Inl NotSet"
    if "SERVICE_ACCOUNT_JSON w = None \<or> SERVICE_ACCOUNT_JSON w = Some []"
    using that by (auto simp: init_sheet_def)
  have f: "init_sheet w = Inl InvalidJson"
    if "SERVICE_ACCOUNT_JSON w = Some s \<and> s \<noteq> [] \<and> json_loads w s = None"
    using that by (simp add: init_sheet_def)
  have g: "init_sheet w = Inl ConnectFailed"
    if "SERVICE_ACCOUNT_JSON w = Some s \<and> s \<noteq> [] \<and> json_loads w s = Some info \<and>
    \<not> open_worksheet w info"
    using that by (simp add: init_sheet_def)
  from a b c d f g show ?thesis by blast
qed

theorem connection_failure_aborts_witness:
  "fetch_and_upload
     \<lparr>SERVICE_ACCOUNT_JSON = None, json_loads = (\<lambda>s. None), open_worksheet = (\<lambda>j. True),
      sheet_records = [], sheet_readable = True,
      api = (\<lambda>off. Json (JObj [(''hits'', JList [JObj [(''id'', JStr ''a'')]])])),
      now = (\<lambda>n. ''T''), append_rows_ok = (\<lambda>b. True)\<rparr> = Failed NotSet \<and>
   fetch_and_upload
     \<lparr>SERVICE_ACCOUNT_JSON = Some ''{'', json_loads = (\<lambda>s. None), open_worksheet = (\<lambda>j. True),
      sheet_records = [], sheet_readable = True,
      api = (\<lambda>off. Json (JObj [(''hits'', JList [JObj [(''id'', JStr ''a'')]])])),
      now = (\<lambda>n. ''T''), append_rows_ok = (\<lambda>b. True)\<rparr> = Failed InvalidJson"
  using connection_failure_aborts
     [of "\<lparr>SERVICE_ACCOUNT_JSON = None, json_loads = (\<lambda>s. None), open_worksheet = (\<lambda>j. True),
      sheet_records = [], sheet_readable = True,
      api = (\<lambda>off. Json (JObj [(''hits'', JList [JObj [(''id'', JStr ''a'')]])])),
      now = (\<lambda>n. ''T''), append_rows_ok = (\<lambda>b. True)\<rparr>" NotSet]
    connection_failure_aborts
     [of "\<lparr>SERVICE_ACCOUNT_JSON = Some ''{'', json_loads = (\<lambda>s. None), open_worksheet = (\<lambda>j. True),
      sheet_records = [], sheet_readable = True,
      api = (\<lambda>off. Json (JObj [(''hits'', JList [JObj [(''id'', JStr ''a'')]])])),
      now = (\<lambda>n. ''T''), append_rows_ok = (\<lambda>b. True)\<rparr>" InvalidJson _ _ _ _ _ "''{''"]
  by simp

text \<open>
  C2. A hit whose identifier is in the Existing-Key Index leaves the locals of the run
  as they were: no row is built, the batch and the checked count are unchanged. So the
  hits of a page count only through those whose identifier is not in the index, and a
  page of indexed hits changes nothing.
\<close>

theorem indexed_hit_skipped:
  "(id_in_index ex hit \<longrightarrow> process_hit ex clk st hit = Inr st) \<and>
   process_hits ex clk st hits =
     process_hits ex clk st (filter (\<lambda>h. \<not> id_in_index ex h) hits) \<and>
   (process_hits ex clk st hits = Inr st' \<and> list_all (id_in_index ex) hits
      \<longrightarrow> st' = st)"
proof -
  have c: "st' = st"
    if "process_hits ex clk st hits = Inr st' \<and> list_all (id_in_index ex) hits"
  proof -
    from that have "filter (\<lambda>h. \<not> id_in_index ex h) hits = []"
      by (simp add: list_all_iff)
    with process_hits_filter [of ex clk st hits] that show ?thesis by simp
  qed
  from process_hit_in_index process_hits_filter c show ?thesis by blast
qed

theorem indexed_hit_skipped_witness:
  "id_in_index {KStr ''b''} (JObj [(''id'', JStr ''b'')]) \<and>
   process_hit {KStr ''b''} (\<lambda>n. ''T'') initial (JObj [(''id'', JStr ''b'')]) = Inr initial \<and>
   process_hits {KStr ''b''} (\<lambda>n. ''T'') initial
      [JObj [(''id'', JStr ''b'')], JObj [(''id'', JStr ''b''), (''title'', JStr ''t'')]]
     = Inr initial"
proof -
  let ?hits = "[JObj [(''id'', JStr ''b'')], JObj [(''id'', JStr ''b''), (''title'', JStr ''t'')]]"
  have i: "id_in_index {KStr ''b''} (JObj [(''id'', JStr ''b'')])"
    "id_in_index {KStr ''b''} (JObj [(''id'', JStr ''b''), (''title'', JStr ''t'')])"
    by (simp_all add: id_in_index_def hit_key_def)
  note t = indexed_hit_skipped [of "{KStr ''b''}" "JObj [(''id'', JStr ''b'')]" "\<lambda>n. ''T''"
        initial ?hits]
  from t i(1) have a: "process_hit {KStr ''b''} (\<lambda>n. ''T'') initial
       (JObj [(''id'', JStr ''b'')]) = Inr initial" by blast
  from t have b: "process_hits {KStr ''b''} (\<lambda>n. ''T'') initial ?hits =
     process_hits {KStr ''b''} (\<lambda>n. ''T'') initial
       (filter (\<lambda>h. \<not> id_in_index {KStr ''b''} h) ?hits)" by blast
  have f: "filter (\<lambda>h. \<not> id_in_index {KStr ''b''} h) ?hits = []"
    using i by simp
  have c: "process_hits {KStr ''b''} (\<lambda>n. ''T'') initial ?hits = Inr initial"
    unfolding b f by simp
  from i(1) a c show ?thesis by blast
qed

text \<open>
  C9. The checked count equals the number of rows in the batch: at the start, after
  every hit, after every page, and at the end of every run that reaches its last
  line, where the count logged is the number of rows handed to the one
  \<^verbatim>\<open>append_rows\<close> call (and zero when no call is made).
\<close>

theorem checked_count_is_batch_length:
  "articles_checked initial = length (batch_to_append initial) \<and>
   (articles_checked st = length (batch_to_append st) \<and>
    process_hit ex clk st hit = Inr st'
      \<longrightarrow> articles_checked st' = length (batch_to_append st')) \<and>
   (articles_checked st = length (batch_to_append st) \<and>
    page fetch ex clk st offset = Inr f
      \<longrightarrow> articles_checked (state_of f) = length (batch_to_append (state_of f))) \<and>
   (fetch_and_upload w = Finished fin u
      \<longrightarrow> articles_checked fin = length (batch_to_append fin) \<and>
          (u = NoUpload \<and> articles_checked fin = 0 \<or>
           (u = Uploaded (batch_to_append fin) \<or> u = UploadError (batch_to_append fin)) \<and>
           0 < articles_checked fin))"
proof -
  have a: "articles_checked initial = length (batch_to_append initial)"
    by (simp add: initial_def)
  have b: "articles_checked st' = length (batch_to_append st')"
    if "articles_checked st = length (batch_to_append st) \<and>
        process_hit ex clk st hit = Inr st'"
    using that process_hit_grown [of ex clk st hit st'] grown_count by blast
  have c: "articles_checked (state_of f) = length (batch_to_append (state_of f))"
    if "articles_checked st = length (batch_to_append st) \<and>
        page fetch ex clk st offset = Inr f"
    using that page_grown [of fetch ex clk st offset f] grown_count by blast
  have d: "articles_checked fin = length (batch_to_append fin) \<and>
          (u = NoUpload \<and> articles_checked fin = 0 \<or>
           (u = Uploaded (batch_to_append fin) \<or> u = UploadError (batch_to_append fin)) \<and>
           0 < articles_checked fin)"
    if r: "fetch_and_upload w = Finished fin u"
  proof -
    from fetch_and_upload_Finished [OF r] obtain ex' f' where
      p: "paging (api w) ex' (now w) page_offsets initial = Inr f'"
      and fin: "fin = state_of f'" and u: "u = upload_batch w (batch_to_append fin)"
      by blast
    from paging_grown [OF p] fin obtain rows where "grown ex' initial fin rows" by blast
    from grown_initial [OF this] have n: "articles_checked fin = length (batch_to_append fin)"
      by simp
    with u show ?thesis by (auto simp: upload_batch_def)
  qed
  from a b c d show ?thesis by blast
qed

theorem checked_count_is_batch_length_witness:
  "fetch_and_upload
     \<lparr>SERVICE_ACCOUNT_JSON = Some ''{}'', json_loads = (\<lambda>s. Some (JObj [])),
      open_worksheet = (\<lambda>j. True),
      sheet_records = [[(''Object ID'', JStr ''b'')]], sheet_readable = True,
      api = (\<lambda>off. if off = 0 then Json (JObj [(''hits'',
               JList [JObj [(''id'', JStr ''a'')], JObj [(''id'', JStr ''b'')],
                      JObj [(''id'', JStr ''c'')]])])
             else Json (JObj [])),
      now = (\<lambda>n. ''T''), append_rows_ok = (\<lambda>b. True)\<rparr>
   = Finished
       \<lparr>articles_checked = 2,
        batch_to_append =
          [[JStr [], JStr [], JStr [], JStr [], JStr [], JStr [], JStr [],
            JStr ''Not Defined'', JStr [], JStr ''a'', JStr ''T''],
           [JStr [], JStr [], JStr [], JStr [], JStr [], JStr [], JStr [],
            JStr ''Not Defined'', JStr [], JStr ''c'', JStr ''T'']],
        requested = [0, 10]\<rparr>
       (Uploaded
          [[JStr [], JStr [], JStr [], JStr [], JStr [], JStr [], JStr [],
            JStr ''Not Defined'', JStr [], JStr ''a'', JStr ''T''],
           [JStr [], JStr [], JStr [], JStr [], JStr [], JStr [], JStr [],
            JStr ''Not Defined'', JStr [], JStr ''c'', JStr ''T'']]) \<and>
   articles_checked
       \<lparr>articles_checked = 2,
        batch_to_append =
          [[JStr [], JStr [], JStr [], JStr [], JStr [], JStr [], JStr [],
            JStr ''Not Defined'', JStr [], JStr ''a'', JStr ''T''],
           [JStr [], JStr [], JStr [], JStr [], JStr [], JStr [], JStr [],
            JStr ''Not Defined'', JStr [], JStr ''c'', JStr ''T'']],
        requested = [0, 10]\<rparr> = (2::nat)"
proof -
  let ?w = "\<lparr>SERVICE_ACCOUNT_JSON = Some ''{}'', json_loads = (\<lambda>s. Some (JObj [])),
      open_worksheet = (\<lambda>j. True),
      sheet_records = [[(''Object ID'', JStr ''b'')]], sheet_readable = True,
      api = (\<lambda>off. if off = 0 then Json (JObj [(''hits'',
               JList [JObj [(''id'', JStr ''a'')], JObj [(''id'', JStr ''b'')],
                      JObj [(''id'', JStr ''c'')]])])
             else Json (JObj [])),
      now = (\<lambda>n. ''T''), append_rows_ok = (\<lambda>b. True)\<rparr>"
  let ?rows = "[[JStr [], JStr [], JStr [], JStr [], JStr [], JStr [], JStr [],
            JStr ''Not Defined'', JStr [], JStr ''a'', JStr ''T''],
           [JStr [], JStr [], JStr [], JStr [], JStr [], JStr [], JStr [],
            JStr ''Not Defined'', JStr [], JStr ''c'', JStr ''T'']]"
  let ?fin = "\<lparr>articles_checked = 2, batch_to_append = ?rows, requested = [0, 10]\<rparr>"
  have r: "fetch_and_upload ?w = Finished ?fin (Uploaded ?rows)"
    by code_simp
  from checked_count_is_batch_length [of _ _ _ _ _ _ _ _ ?w ?fin "Uploaded ?rows"] r
  have "articles_checked ?fin = length (batch_to_append ?fin)" by blast
  with r show ?thesis by simp
qed

text \<open>
  C6. When the connection and the index are in place, the pages before some offset
  were all fetched and processed with the loop going on, and the GET at that offset
  raises a \<^verbatim>\<open>RequestException\<close>, the run does not abort: it reaches its last line.
  The offsets requested are exactly the earlier ones and the failing one, nothing after
  it; the batch is the one accumulated from the earlier pages, unchanged; and the upload
  phase runs on it, so a batch that is not empty goes to the one \<^verbatim>\<open>append_rows\<close> call
  and, when the sheet accepts it, ends up in the sheet.
\<close>

theorem fetch_failure_keeps_batch:
  assumes "init_sheet w = Inr ()"
    and "sheet_readable w"
    and "get_existing_object_ids (sheet_records w) = Inr ex"
    and "page_offsets = before @ offset # after"
    and "paging (api w) ex (now w) before initial = Inr (Next st1)"
    and "api w offset = RequestException"
  shows "fetch_and_upload w =
           Finished (st1\<lparr>requested := before @ [offset]\<rparr>)
             (upload_batch w (batch_to_append st1)) \<and>
         requested st1 = before \<and>
         sheet_after w (fetch_and_upload w) =
           (if batch_to_append st1 \<noteq> [] \<and> append_rows_ok w (batch_to_append st1)
            then sheet_records w @ map (zip COLUMNS) (batch_to_append st1)
            else sheet_records w)"
proof -
  from paging_Next_requested [OF assms(5)] have rq: "requested st1 = before"
    by (simp add: initial_def)
  have "paging (api w) ex (now w) (before @ offset # after) initial =
          Inr (Stop (st1\<lparr>requested := requested st1 @ [offset]\<rparr>))"
    by (simp add: paging_append assms(5) page_RequestException [of "api w" offset, OF assms(6)])
  with assms(4) rq have p: "paging (api w) ex (now w) page_offsets initial =
          Inr (Stop (st1\<lparr>requested := before @ [offset]\<rparr>))" by simp
  have r: "fetch_and_upload w =
           Finished (st1\<lparr>requested := before @ [offset]\<rparr>)
             (upload_batch w (batch_to_append st1))"
    using assms(1,2,3) p by (simp add: fetch_and_upload_def get_all_records_def)
  have s: "sheet_after w (fetch_and_upload w) =
           (if batch_to_append st1 \<noteq> [] \<and> append_rows_ok w (batch_to_append st1)
            then sheet_records w @ map (zip COLUMNS) (batch_to_append st1)
            else sheet_records w)"
    unfolding r by (simp add: sheet_after_def upload_batch_def)
  from r rq s show ?thesis by blast
qed

theorem fetch_failure_keeps_batch_witness:
  "fetch_and_upload
     \<lparr>SERVICE_ACCOUNT_JSON = Some ''{}'', json_loads = (\<lambda>s. Some (JObj [])),
      open_worksheet = (\<lambda>j. True),
      sheet_records = [[(''Object ID'', JStr ''b'')]], sheet_readable = True,
      api = (\<lambda>off. if off = 0 then Json (JObj [(''hits'',
               JList [JObj [(''id'', JStr ''a'')], JObj [(''id'', JStr ''b'')]])])
             else RequestException),
      now = (\<lambda>n. ''T''), append_rows_ok = (\<lambda>b. True)\<rparr>
   = Finished
       \<lparr>articles_checked = 1,
        batch_to_append =
          [[JStr [], JStr [], JStr [], JStr [], JStr [], JStr [], JStr [],
            JStr ''Not Defined'', JStr [], JStr ''a'', JStr ''T'']],
        requested = [0, 10]\<rparr>
       (Uploaded
          [[JStr [], JStr [], JStr [], JStr [], JStr [], JStr [], JStr [],
            JStr ''Not Defined'', JStr [], JStr ''a'', JStr ''T'']])"
proof -
  let ?fetch = "\<lambda>off::nat. if off = 0 then Json (JObj [(''hits'',
               JList [JObj [(''id'', JStr ''a'')], JObj [(''id'', JStr ''b'')]])])
             else RequestException"
  let ?w = "\<lparr>SERVICE_ACCOUNT_JSON = Some ''{}'', json_loads = (\<lambda>s. Some (JObj [])),
      open_worksheet = (\<lambda>j. True),
      sheet_records = [[(''Object ID'', JStr ''b'')]], sheet_readable = True,
      api = ?fetch, now = (\<lambda>n. ''T''), append_rows_ok = (\<lambda>b. True)\<rparr>"
  let ?rows = "[[JStr [], JStr [], JStr [], JStr [], JStr [], JStr [], JStr [],
            JStr ''Not Defined'', JStr [], JStr ''a'', JStr ''T'']]"
  let ?st1 = "\<lparr>articles_checked = 1, batch_to_append = ?rows, requested = [0]\<rparr>"
  have 1: "init_sheet ?w = Inr ()" by (simp add: init_sheet_def)
  have 2: "sheet_readable ?w" by simp
  have 3: "get_existing_object_ids (sheet_records ?w) = Inr {KStr ''b''}"
    by (simp add: get_existing_object_ids_def row_get_def map_filter_simps)
  have 4: "page_offsets = [0] @ 10 # [20, 30, 40]" by code_simp
  have 5: "paging ?fetch {KStr ''b''} (\<lambda>n. ''T'') [0] initial = Inr (Next ?st1)"
    by code_simp
  have p5: "paging (api ?w) {KStr ''b''} (now ?w) [0] initial = Inr (Next ?st1)"
    using 5 by simp
  have 6: "api ?w 10 = RequestException" by simp
  have u: "upload_batch ?w (batch_to_append ?st1) = Uploaded ?rows"
    by (simp add: upload_batch_def)
  from fetch_failure_keeps_batch [OF 1 2 3 4 p5 6]
  have "fetch_and_upload ?w = Finished (?st1\<lparr>requested := [0] @ [10]\<rparr>)
             (upload_batch ?w (batch_to_append ?st1))" by (rule conjunct1)
  then show ?thesis unfolding u by simp
qed

text \<open>
  C10 (as amended). A falsy identifier is never in the index, whatever the sheet held
  when the index was built (the hit's own row included). In every run that reaches
  its last line, a hit served on a requested page whose identifier is absent or falsy
  is mapped to a row whose Object ID is that identifier; the row is in the batch, so
  the batch is handed to \<^verbatim>\<open>append_rows\<close>; and when the sheet accepts the batch the
  row is in the sheet after the run.
\<close>

theorem falsy_identifier_never_deduplicated:
  "(get_existing_object_ids records = Inr ex \<and> py_get hit ''id'' JNull = Inr i \<and>
    \<not> truthy i
      \<longrightarrow> \<not> id_in_index ex hit) \<and>
   (fetch_and_upload w = Finished st u \<and>
    hit \<in> set (served_hits (api w) (requested st)) \<and>
    py_get hit ''id'' JNull = Inr i \<and> \<not> truthy i
      \<longrightarrow> (\<exists>row \<in> set (batch_to_append st).
            (\<exists>ts. build_article_row ts hit = Inr row) \<and> row ! 9 = i \<and>
            row_get (zip COLUMNS row) ''Object ID'' = i \<and>
            (append_rows_ok w (batch_to_append st)
               \<longrightarrow> zip COLUMNS row \<in> set (sheet_after w (fetch_and_upload w)))) \<and>
          u \<noteq> NoUpload \<and>
          (append_rows_ok w (batch_to_append st) \<longrightarrow> u = Uploaded (batch_to_append st)) \<and>
          (\<not> append_rows_ok w (batch_to_append st)
             \<longrightarrow> u = UploadError (batch_to_append st)))"
  using falsy_not_in_index falsy_hit_appended by blast

theorem falsy_identifier_never_deduplicated_witness:
  "fetch_and_upload (world_of [zip COLUMNS (row_of_id [])] (one_page [hit_of_id []]))
   = Finished
       \<lparr>articles_checked = 1, batch_to_append = [row_of_id []], requested = [0, 10]\<rparr>
       (Uploaded [row_of_id []]) \<and>
   row_of_id [] ! 9 = JStr [] \<and>
   zip COLUMNS (row_of_id []) \<in> set
     (sheet_after (world_of [zip COLUMNS (row_of_id [])] (one_page [hit_of_id []]))
        (fetch_and_upload
           (world_of [zip COLUMNS (row_of_id [])] (one_page [hit_of_id []])))) \<and>
   length
     (sheet_after (world_of [zip COLUMNS (row_of_id [])] (one_page [hit_of_id []]))
        (fetch_and_upload
           (world_of [zip COLUMNS (row_of_id [])] (one_page [hit_of_id []])))) = 2"
proof -
  let ?w = "world_of [zip COLUMNS (row_of_id [])] (one_page [hit_of_id []])"
  let ?st = "\<lparr>articles_checked = 1, batch_to_append = [row_of_id []],
               requested = [0, 10]\<rparr>"
  let ?u = "Uploaded [row_of_id []]"
  note t = falsy_identifier_never_deduplicated
     [where w = ?w and st = ?st and u = ?u and hit = "hit_of_id []" and i = "JStr []"]
  have r: "fetch_and_upload ?w = Finished ?st ?u" by code_simp
  have h: "hit_of_id [] \<in> set (served_hits (api ?w) (requested ?st))" by code_simp
  have i: "py_get (hit_of_id []) ''id'' JNull = Inr (JStr [])" "\<not> truthy (JStr [])"
    by (simp_all add: hit_of_id_def)
  have ok: "append_rows_ok ?w (batch_to_append ?st)" by (simp add: world_of_def)
  from t r h i ok have "\<exists>row \<in> set (batch_to_append ?st). row ! 9 = JStr [] \<and>
      zip COLUMNS row \<in> set (sheet_after ?w (fetch_and_upload ?w))" by blast
  then have 1: "row_of_id [] ! 9 = JStr [] \<and>
      zip COLUMNS (row_of_id []) \<in> set (sheet_after ?w (fetch_and_upload ?w))" by simp
  have 2: "length (sheet_after ?w (fetch_and_upload ?w)) = 2"
    unfolding r by (simp add: sheet_after_def world_of_def)
  from r 1 2 show ?thesis by blast
qed

text \<open>
  C10 as stated, for every falsy identifier, does not hold: the identifiers \<^verbatim>\<open>[]\<close>
  and \<^verbatim>\<open>{}\<close> are falsy but cannot be hashed, so the membership test of line 129
  raises \<^verbatim>\<open>TypeError\<close>, outside the \<^verbatim>\<open>except\<close> clause of the page loop: the run ends
  there and appends nothing.
\<close>

theorem unhashable_identifier_counterexample:
  "\<not> truthy (JList []) \<and>
   fetch_and_upload (world_of [] (one_page [JObj [(''id'', JList [])]]))
     = Crashed TypeError \<and>
   sheet_after (world_of [] (one_page [JObj [(''id'', JList [])]]))
     (fetch_and_upload (world_of [] (one_page [JObj [(''id'', JList [])]]))) = [] \<and>
   \<not> truthy (JObj []) \<and>
   fetch_and_upload (world_of [] (one_page [JObj [(''id'', JObj [])]]))
     = Crashed TypeError"
  by code_simp

text \<open>
  C1 (as amended). In every run that reaches its last line, the Object IDs of the
  batch are, in order, the identifiers of the new hits of the run: the hits served
  on the pages the run requested whose identifier is not in the index. So the batch
  has two rows with the same Object ID exactly when some identifier is among the new
  hits twice, and no row of the batch has an Object ID equal to a truthy Object ID
  of the sheet (every row's Object ID can be hashed and is outside the index). Over
  any sequence of runs in each of which no truthy identifier is among the new hits
  twice, a sheet whose truthy Object IDs are pairwise distinct keeps them pairwise
  distinct.
\<close>

theorem batch_ids_fresh_and_distinct:
  "(fetch_and_upload w = Finished st u
      \<longrightarrow> map (\<lambda>r. r ! 9) (batch_to_append st) = map hit_id (new_hits w) \<and>
          (distinct (map row_key (batch_to_append st)) \<longleftrightarrow>
           distinct (map hash_key (map hit_id (new_hits w))))) \<and>
   (fetch_and_upload w = Finished st u \<and> r \<in> set (batch_to_append st) \<and>
    v \<in> set (sheet_ids (sheet_records w))
      \<longrightarrow> row_key r \<noteq> None \<and> row_key r \<noteq> hash_key v) \<and>
   (distinct (map hash_key (sheet_ids records)) \<and> no_new_id_twice records ws
      \<longrightarrow> distinct (map hash_key (sheet_ids (runs records ws))))"
  using batch_ids_new_hits batch_distinct_iff batch_not_in_sheet runs_new_distinct
  by blast

theorem batch_ids_fresh_and_distinct_witness:
  "fetch_and_upload
     (world_of [zip COLUMNS (row_of_id ''b'')]
        (\<lambda>offset. if offset = 0
                     then hits_body [hit_of_id ''a'', hit_of_id ''b'', hit_of_id ''b'']
                   else if offset = 20 then hits_body [hit_of_id ''a'']
                   else RequestException))
   = Finished
       \<lparr>articles_checked = 1, batch_to_append = [row_of_id ''a''], requested = [0, 10]\<rparr>
       (Uploaded [row_of_id ''a'']) \<and>
   map hit_id (new_hits
     (world_of [zip COLUMNS (row_of_id ''b'')]
        (\<lambda>offset. if offset = 0
                     then hits_body [hit_of_id ''a'', hit_of_id ''b'', hit_of_id ''b'']
                   else if offset = 20 then hits_body [hit_of_id ''a'']
                   else RequestException))) = [JStr ''a''] \<and>
   distinct (map row_key [row_of_id ''a'']) \<and>
   row_key (row_of_id ''a'') \<noteq> hash_key (JStr ''b'') \<and>
   distinct (map hash_key (sheet_ids
     (runs [zip COLUMNS (row_of_id ''b'')]
        [world_of []
           (\<lambda>offset. if offset = 0
                     then hits_body [hit_of_id ''a'', hit_of_id ''b'', hit_of_id ''b'']
                   else if offset = 20 then hits_body [hit_of_id ''a'']
                   else RequestException),
         world_of []
           (\<lambda>offset. if offset = 0
                     then hits_body [hit_of_id ''a'', hit_of_id ''b'', hit_of_id ''b'']
                   else if offset = 20 then hits_body [hit_of_id ''a'']
                   else RequestException)])))"
proof -
  let ?fetch = "\<lambda>offset::nat. if offset = 0
                     then hits_body [hit_of_id ''a'', hit_of_id ''b'', hit_of_id ''b'']
                   else if offset = 20 then hits_body [hit_of_id ''a'']
                   else RequestException"
  let ?recs = "[zip COLUMNS (row_of_id ''b'')]"
  let ?w = "world_of ?recs ?fetch"
  let ?st = "\<lparr>articles_checked = 1, batch_to_append = [row_of_id ''a''],
               requested = [0, 10]\<rparr>"
  let ?u = "Uploaded [row_of_id ''a'']"
  let ?ws = "[world_of [] ?fetch, world_of [] ?fetch]"
  note t = batch_ids_fresh_and_distinct [of ?w ?st ?u "row_of_id ''a''" "JStr ''b''" ?recs ?ws]
  have r: "fetch_and_upload ?w = Finished ?st ?u" by code_simp
  have m: "row_of_id ''a'' \<in> set (batch_to_append ?st)" by simp
  have v: "JStr ''b'' \<in> set (sheet_ids (sheet_records ?w))" by code_simp
  have s: "distinct (map hash_key (sheet_ids ?recs))" by code_simp
  have n: "no_new_id_twice ?recs ?ws" by code_simp
  from t r have "map (\<lambda>r. r ! 9) (batch_to_append ?st) = map hit_id (new_hits ?w)"
    by blast
  then have 1: "map hit_id (new_hits ?w) = [JStr ''a'']" by (simp add: row_of_id_def)
  from t r have "distinct (map row_key (batch_to_append ?st)) \<longleftrightarrow>
           distinct (map hash_key (map hit_id (new_hits ?w)))" by blast
  with 1 have 2: "distinct (map row_key [row_of_id ''a''])" by simp
  from t r m v have 3: "row_key (row_of_id ''a'') \<noteq> hash_key (JStr ''b'')" by blast
  from t s n have 4: "distinct (map hash_key (sheet_ids (runs ?recs ?ws)))" by blast
  from r 1 2 3 4 show ?thesis by blast
qed

text \<open>
  The claim as written fails: the script never compares a hit with the rows already
  queued, nor a falsy identifier with the sheet. Served the identifier \<open>a\<close> twice and
  the empty identifier once, on a sheet that already holds a row with the empty
  Object ID, the run appends two rows with Object ID \<open>a\<close> and one more row with the
  empty Object ID.
\<close>

theorem duplicate_ids_counterexample:
  "fetch_and_upload
     (world_of [zip COLUMNS (row_of_id [])]
        (one_page [hit_of_id ''a'', hit_of_id ''a'', hit_of_id []]))
   = Finished
       \<lparr>articles_checked = 3,
        batch_to_append = [row_of_id ''a'', row_of_id ''a'', row_of_id []],
        requested = [0, 10]\<rparr>
       (Uploaded [row_of_id ''a'', row_of_id ''a'', row_of_id []]) \<and>
   row_of_id ''a'' ! 9 = JStr ''a'' \<and>
   row_get (zip COLUMNS (row_of_id [])) ''Object ID'' = row_of_id [] ! 9"
  by code_simp

text \<open>
  C3 (as amended). Let a run reach its last line with an upload that did not fail, so
  that the sheet now holds its batch; let every row of that batch have a truthy Object
  ID, and let the run not have stopped on its count before the last page: it queued
  fewer than \<open>max_articles\<close> rows, or it requested every page. Then a second run
  against the same API answers, whatever its clock and whatever the sheet would accept,
  requests the same pages, queues no row, counts zero and makes no append call. The
  condition on the count always holds when the API serves at most \<open>page_size\<close> hits
  at each offset, as the script asks it to.
\<close>

theorem second_run_appends_nothing:
  "(fetch_and_upload w = Finished st u \<and>
    list_all (\<lambda>off. length (page_hits (api w) off) \<le> page_size) page_offsets
      \<longrightarrow> articles_checked st < max_articles \<or> requested st = page_offsets) \<and>
   (fetch_and_upload w = Finished st u \<and>
    u \<noteq> UploadError (batch_to_append st) \<and>
    list_all (\<lambda>r. truthy (r ! 9)) (batch_to_append st) \<and>
    (articles_checked st < max_articles \<or> requested st = page_offsets)
      \<longrightarrow> fetch_and_upload
            (w\<lparr>sheet_records := sheet_after w (fetch_and_upload w),
               now := later_clock, append_rows_ok := later_ok\<rparr>)
          = Finished (initial\<lparr>requested := requested st\<rparr>) NoUpload)"
  using full_pages_no_early_stop second_run_empty by blast

theorem second_run_appends_nothing_witness:
  "fetch_and_upload
     ((world_of [] five_pages)
      \<lparr>sheet_records :=
          sheet_after (world_of [] five_pages) (fetch_and_upload (world_of [] five_pages)),
        now := (\<lambda>n. ''U''), append_rows_ok := (\<lambda>b. False)\<rparr>)
   = Finished
       \<lparr>articles_checked = 0, batch_to_append = [], requested = [0, 10, 20, 30, 40]\<rparr>
       NoUpload \<and>
   fetch_and_upload
     ((world_of [zip COLUMNS (row_of_id ''b'')]
         (one_page [hit_of_id ''a'', hit_of_id ''b'', hit_of_id ''c'']))
      \<lparr>sheet_records :=
          sheet_after
            (world_of [zip COLUMNS (row_of_id ''b'')]
               (one_page [hit_of_id ''a'', hit_of_id ''b'', hit_of_id ''c'']))
            (fetch_and_upload
               (world_of [zip COLUMNS (row_of_id ''b'')]
                  (one_page [hit_of_id ''a'', hit_of_id ''b'', hit_of_id ''c'']))),
        now := (\<lambda>n. ''U''), append_rows_ok := (\<lambda>b. False)\<rparr>)
   = Finished \<lparr>articles_checked = 0, batch_to_append = [], requested = [0, 10]\<rparr> NoUpload"
proof -
  let ?w = "world_of [] five_pages"
  let ?b = "map row_of_id (page_ids CHR ''a'') @ map row_of_id (page_ids CHR ''b'') @
          map row_of_id (page_ids CHR ''c'') @ map row_of_id (page_ids CHR ''d'') @
          map row_of_id (page_ids CHR ''e'')"
  let ?st = "\<lparr>articles_checked = 50, batch_to_append = ?b,
               requested = [0, 10, 20, 30, 40]\<rparr>"
  let ?u = "Uploaded ?b"
  note t = second_run_appends_nothing
     [where w = ?w and st = ?st and u = ?u and later_clock = "\<lambda>n. ''U''"
        and later_ok = "\<lambda>b. False"]
  have r: "fetch_and_upload ?w = Finished ?st ?u" by (rule five_pages_first_run)
  have a: "list_all (\<lambda>off. length (page_hits (api ?w) off) \<le> page_size) page_offsets"
    by (simp add: page_offsets_eval page_hits_def five_pages_def hits_body_def
          page_ids_def page_size_def world_of_def)
  from t r a have h: "articles_checked ?st < max_articles \<or> requested ?st = page_offsets"
    by blast
  have u: "?u \<noteq> UploadError (batch_to_append ?st)" by simp
  have y: "list_all (\<lambda>r. truthy (r ! 9)) (batch_to_append ?st)"
    by (simp add: list_all_iff row_of_id_def page_ids_def)
  from t r u y h have 1: "fetch_and_upload
       (?w\<lparr>sheet_records := sheet_after ?w (fetch_and_upload ?w),
           now := (\<lambda>n. ''U''), append_rows_ok := (\<lambda>b. False)\<rparr>)
     = Finished (initial\<lparr>requested := requested ?st\<rparr>) NoUpload" by blast
  let ?w' = "world_of [zip COLUMNS (row_of_id ''b'')]
              (one_page [hit_of_id ''a'', hit_of_id ''b'', hit_of_id ''c''])"
  let ?st' = "\<lparr>articles_checked = 2, batch_to_append = [row_of_id ''a'', row_of_id ''c''],
        requested = [0, 10]\<rparr>"
  let ?u' = "Uploaded [row_of_id ''a'', row_of_id ''c'']"
  note t' = second_run_appends_nothing
     [where w = ?w' and st = ?st' and u = ?u' and later_clock = "\<lambda>n. ''U''"
        and later_ok = "\<lambda>b. False"]
  have r': "fetch_and_upload ?w' = Finished ?st' ?u'" by (rule example_first_run)
  have u': "?u' \<noteq> UploadError (batch_to_append ?st')" by simp
  have y': "list_all (\<lambda>r. truthy (r ! 9)) (batch_to_append ?st')"
    by (simp add: row_of_id_def)
  have h': "articles_checked ?st' < max_articles \<or> requested ?st' = page_offsets"
    by (simp add: max_articles_def)
  from t' r' u' y' h' have 2: "fetch_and_upload
       (?w'\<lparr>sheet_records := sheet_after ?w' (fetch_and_upload ?w'),
           now := (\<lambda>n. ''U''), append_rows_ok := (\<lambda>b. False)\<rparr>)
     = Finished (initial\<lparr>requested := requested ?st'\<rparr>) NoUpload" by blast
  from 1 2 show ?thesis by (simp add: initial_def)
qed

text \<open>
  C3 as stated, for every first run, does not hold. The index skips falsy Object IDs,
  so a hit with the empty identifier, appended by the first run, is appended again by
  the second run on the sheet the first run left.
\<close>

theorem second_run_counterexample:
  "fetch_and_upload (world_of [] (one_page [hit_of_id []]))
   = Finished
       \<lparr>articles_checked = 1, batch_to_append = [row_of_id []], requested = [0, 10]\<rparr>
       (Uploaded [row_of_id []]) \<and>
   sheet_after (world_of [] (one_page [hit_of_id []]))
     (fetch_and_upload (world_of [] (one_page [hit_of_id []])))
   = [zip COLUMNS (row_of_id [])] \<and>
   fetch_and_upload (world_of [zip COLUMNS (row_of_id [])] (one_page [hit_of_id []]))
   = Finished
       \<lparr>articles_checked = 1, batch_to_append = [row_of_id []], requested = [0, 10]\<rparr>
       (Uploaded [row_of_id []])"
  by code_simp

end
